theory Spec2Isabelle
  imports Main
begin

section \<open>Cards (poker/cards.py)\<close>

datatype suit = HEARTS | DIAMONDS | CLUBS | SPADES

datatype rank = TWO | THREE | FOUR | FIVE | SIX | SEVEN | EIGHT | NINE | TEN
  | JACK | QUEEN | KING | ACE

text \<open>The integer carried by each member of the \<open>Rank\<close> enum (\<open>rank.value\<close>).\<close>

fun rank_value :: "rank \<Rightarrow> int" where
  "rank_value TWO = 2"
| "rank_value THREE = 3"
| "rank_value FOUR = 4"
| "rank_value FIVE = 5"
| "rank_value SIX = 6"
| "rank_value SEVEN = 7"
| "rank_value EIGHT = 8"
| "rank_value NINE = 9"
| "rank_value TEN = 10"
| "rank_value JACK = 11"
| "rank_value QUEEN = 12"
| "rank_value KING = 13"
| "rank_value ACE = 14"

datatype card = Card (card_rank: rank) (card_suit: suit)

text \<open>Exceptions of the Python code that the model keeps as values.\<close>

datatype error = ValueError | IndexError

text \<open>\<open>Deck.reset\<close>: \<open>[Card(rank, suit) for suit in Suit for rank in Rank]\<close>.\<close>

definition all_suits :: "suit list" where
  "all_suits = [HEARTS, DIAMONDS, CLUBS, SPADES]"

definition all_ranks :: "rank list" where
  "all_ranks = [TWO, THREE, FOUR, FIVE, SIX, SEVEN, EIGHT, NINE, TEN, JACK, QUEEN, KING, ACE]"

definition reset_deck :: "card list" where
  "reset_deck = concat (map (\<lambda>s. map (\<lambda>r. Card r s) all_ranks) all_suits)"

text \<open>\<open>Deck.deal\<close>: the dealt cards and the remaining deck, or \<open>ValueError\<close>.\<close>

definition deal :: "card list \<Rightarrow> nat \<Rightarrow> error + (card list \<times> card list)" where
  "deal cards num_cards =
     (if length cards < num_cards then Inl ValueError
      else Inr (take num_cards cards, drop num_cards cards))"

section \<open>Players (poker/player.py)\<close>

record player =
  player_id :: string
  name :: string
  chips :: int
  hand :: "card list"
  current_bet :: int
  total_bet_this_round :: int
  is_active :: bool
  is_all_in :: bool
  is_sitting_out :: bool

definition FOLD :: string where "FOLD = ''fold''"
definition CHECK :: string where "CHECK = ''check''"
definition CALL :: string where "CALL = ''call''"
definition BET :: string where "BET = ''bet''"
definition RAISE :: string where "RAISE = ''raise''"
definition ALL_IN :: string where "ALL_IN = ''all_in''"

definition add_chips :: "player \<Rightarrow> int \<Rightarrow> player" where
  "add_chips p amount = p\<lparr>chips := chips p + amount\<rparr>"

text \<open>\<open>remove_chips\<close> and \<open>bet\<close> return the amount moved together with the updated player.\<close>

definition remove_chips :: "player \<Rightarrow> int \<Rightarrow> int \<times> player" where
  "remove_chips p amount =
     (let actual_amount = min amount (chips p);
          p1 = p\<lparr>chips := chips p - actual_amount\<rparr>;
          p2 = (if chips p1 = 0 then p1\<lparr>is_all_in := True\<rparr> else p1)
      in (actual_amount, p2))"

definition bet :: "player \<Rightarrow> int \<Rightarrow> int \<times> player" where
  "bet p amount =
     (let (amount1, p1) =
            (if amount \<ge> chips p then (chips p, p\<lparr>is_all_in := True\<rparr>) else (amount, p));
          (bet_amount, p2) = remove_chips p1 amount1
      in (bet_amount,
          p2\<lparr>current_bet := current_bet p2 + bet_amount,
             total_bet_this_round := total_bet_this_round p2 + bet_amount\<rparr>))"

definition fold_player :: "player \<Rightarrow> player" where
  "fold_player p = p\<lparr>is_active := False\<rparr>"

definition reset_for_new_hand :: "player \<Rightarrow> player" where
  "reset_for_new_hand p =
     p\<lparr>hand := [], current_bet := 0, total_bet_this_round := 0,
       is_active := True, is_all_in := False\<rparr>"

definition reset_for_new_round :: "player \<Rightarrow> player" where
  "reset_for_new_round p = p\<lparr>current_bet := 0, total_bet_this_round := 0\<rparr>"

definition can_act :: "player \<Rightarrow> bool" where
  "can_act p = (is_active p \<and> \<not> is_all_in p \<and> chips p > 0)"

text \<open>The ledger invariant of the data model: the stack is non-negative and an all-in
  player has an empty stack.\<close>

definition player_inv :: "player \<Rightarrow> bool" where
  "player_inv p = (chips p \<ge> 0 \<and> (is_all_in p \<longrightarrow> chips p = 0))"

section \<open>Hand evaluation (poker/hand_evaluator.py)\<close>

datatype hand_rank = HIGH_CARD | PAIR | TWO_PAIR | THREE_OF_A_KIND | STRAIGHT | FLUSH
  | FULL_HOUSE | FOUR_OF_A_KIND | STRAIGHT_FLUSH | ROYAL_FLUSH

fun hand_rank_value :: "hand_rank \<Rightarrow> int" where
  "hand_rank_value HIGH_CARD = 1"
| "hand_rank_value PAIR = 2"
| "hand_rank_value TWO_PAIR = 3"
| "hand_rank_value THREE_OF_A_KIND = 4"
| "hand_rank_value STRAIGHT = 5"
| "hand_rank_value FLUSH = 6"
| "hand_rank_value FULL_HOUSE = 7"
| "hand_rank_value FOUR_OF_A_KIND = 8"
| "hand_rank_value STRAIGHT_FLUSH = 9"
| "hand_rank_value ROYAL_FLUSH = 10"

type_synonym evaluation = "hand_rank \<times> int list"

text \<open>\<open>collections.Counter\<close> over a list: the keys in the order of their first occurrence
  (the order \<open>items()\<close> and \<open>values()\<close> iterate in), each with its number of occurrences.\<close>

fun counter_add :: "'a \<Rightarrow> ('a \<times> nat) list \<Rightarrow> ('a \<times> nat) list" where
  "counter_add x [] = [(x, 1)]"
| "counter_add x ((k, c) # kcs) =
     (if k = x then (k, Suc c) # kcs else (k, c) # counter_add x kcs)"

definition counter :: "'a list \<Rightarrow> ('a \<times> nat) list" where
  "counter xs = foldl (\<lambda>acc x. counter_add x acc) [] xs"

text \<open>\<open>[r for r, count in rank_counts.items() if count == n]\<close>.\<close>

definition keys_with_count :: "('a \<times> nat) list \<Rightarrow> nat \<Rightarrow> 'a list" where
  "keys_with_count kcs n = map fst (filter (\<lambda>kc. snd kc = n) kcs)"

text \<open>\<open>xs[0]\<close>, which raises \<open>IndexError\<close> on the empty list.\<close>

fun first :: "'a list \<Rightarrow> error + 'a" where
  "first [] = Inl IndexError"
| "first (x # xs) = Inr x"

text \<open>\<open>sorted(xs, reverse=True)\<close> on integers.\<close>

definition sorted_desc :: "int list \<Rightarrow> int list" where
  "sorted_desc xs = rev (sort xs)"

text \<open>The straight test of \<open>_evaluate_five_cards\<close>: the flag \<open>is_straight\<close> and the value
  of \<open>sorted_ranks\<close> after the test (rewritten to the ace-low list for the wheel).\<close>

definition straight_check :: "int list \<Rightarrow> bool \<times> int list" where
  "straight_check ranks =
     (let sorted_ranks = sort (remdups ranks) in
      if length sorted_ranks = 5 then
        (if last sorted_ranks - hd sorted_ranks = 4 then (True, sorted_ranks)
         else if sorted_ranks = [2, 3, 4, 5, 14] then (True, [1, 2, 3, 4, 5])
         else (False, sorted_ranks))
      else (False, sorted_ranks))"

definition evaluate_five_cards :: "card list \<Rightarrow> error + evaluation" where
  "evaluate_five_cards cards =
     (let ranks = map (\<lambda>c. rank_value (card_rank c)) cards;
          suits = map card_suit cards;
          rank_counts = counter ranks;
          suit_counts = counter suits;
          is_flush = (length suit_counts = 1);
          (is_straight, sorted_ranks) = straight_check ranks;
          count_values = map snd rank_counts;
          pairs = keys_with_count rank_counts 2
      in
      if is_flush \<and> is_straight \<and> last sorted_ranks = 14 \<and> hd sorted_ranks = 10
        then Inr (ROYAL_FLUSH, [14])
      else if is_flush \<and> is_straight
        then Inr (STRAIGHT_FLUSH, [last sorted_ranks])
      else if 4 \<in> set count_values then
        (case first (keys_with_count rank_counts 4) of Inl e \<Rightarrow> Inl e
         | Inr four_kind \<Rightarrow>
             (case first (keys_with_count rank_counts 1) of Inl e \<Rightarrow> Inl e
              | Inr kicker \<Rightarrow> Inr (FOUR_OF_A_KIND, [four_kind, kicker])))
      else if 3 \<in> set count_values \<and> 2 \<in> set count_values then
        (case first (keys_with_count rank_counts 3) of Inl e \<Rightarrow> Inl e
         | Inr three_kind \<Rightarrow>
             (case first (keys_with_count rank_counts 2) of Inl e \<Rightarrow> Inl e
              | Inr pair \<Rightarrow> Inr (FULL_HOUSE, [three_kind, pair])))
      else if is_flush then Inr (FLUSH, sorted_desc ranks)
      else if is_straight then Inr (STRAIGHT, [last sorted_ranks])
      else if 3 \<in> set count_values then
        (case first (keys_with_count rank_counts 3) of Inl e \<Rightarrow> Inl e
         | Inr three_kind \<Rightarrow>
             Inr (THREE_OF_A_KIND, [three_kind] @ sorted_desc (keys_with_count rank_counts 1)))
      else if length pairs = 2 then
        (case first (keys_with_count rank_counts 1) of Inl e \<Rightarrow> Inl e
         | Inr kicker \<Rightarrow> Inr (TWO_PAIR, sorted_desc pairs @ [kicker]))
      else if length pairs = 1 then
        Inr (PAIR, [hd pairs] @ sorted_desc (keys_with_count rank_counts 1))
      else Inr (HIGH_CARD, sorted_desc ranks))"

text \<open>\<open>_compare_hands\<close>: the loop over \<open>zip(tiebreakers1, tiebreakers2)\<close> stops at the end
  of the shorter list.\<close>

fun compare_tiebreakers :: "int list \<Rightarrow> int list \<Rightarrow> int" where
  "compare_tiebreakers (t1 # ts1) (t2 # ts2) =
     (if t1 > t2 then 1 else if t1 < t2 then -1 else compare_tiebreakers ts1 ts2)"
| "compare_tiebreakers _ _ = 0"

definition compare_hands :: "evaluation \<Rightarrow> evaluation \<Rightarrow> int" where
  "compare_hands hand1 hand2 =
     (let (rank1, tiebreakers1) = hand1; (rank2, tiebreakers2) = hand2 in
      if hand_rank_value rank1 > hand_rank_value rank2 then 1
      else if hand_rank_value rank1 < hand_rank_value rank2 then -1
      else compare_tiebreakers tiebreakers1 tiebreakers2)"

text \<open>\<open>itertools.combinations(xs, k)\<close>, in its order of generation.\<close>

fun combinations :: "'a list \<Rightarrow> nat \<Rightarrow> 'a list list" where
  "combinations xs 0 = [[]]"
| "combinations [] (Suc k) = []"
| "combinations (x # xs) (Suc k) =
     map ((#) x) (combinations xs k) @ combinations xs (Suc k)"

text \<open>The loop of \<open>evaluate_hand\<close> over the combinations, \<open>best\<close> being \<open>None\<close> before the
  first one. With five cards or more there is a combination, so the loop of \<open>evaluate_hand\<close>
  never ends with \<open>None\<close> (\<open>evaluate_hand_finds_a_hand\<close> below); the branch for it in
  \<open>evaluate_hand\<close> is there for the case distinction to be complete.\<close>

fun best_of :: "card list list \<Rightarrow> evaluation option \<Rightarrow> error + evaluation option" where
  "best_of [] best = Inr best"
| "best_of (combo # combos) best =
     (case evaluate_five_cards combo of Inl e \<Rightarrow> Inl e
      | Inr ev \<Rightarrow>
          (case best of None \<Rightarrow> best_of combos (Some ev)
           | Some b \<Rightarrow>
               if compare_hands ev b > 0 then best_of combos (Some ev)
               else best_of combos (Some b)))"

definition evaluate_hand :: "card list \<Rightarrow> error + evaluation" where
  "evaluate_hand cards =
     (if length cards < 5 then Inl ValueError
      else (case best_of (combinations cards 5) None of Inl e \<Rightarrow> Inl e
            | Inr None \<Rightarrow> Inl ValueError
            | Inr (Some ev) \<Rightarrow> Inr ev))"

text \<open>\<open>compare_player_hands\<close>: every player's evaluation with the player's index; the
  evaluation of player \<open>i\<close> is over the hole cards followed by the community cards.\<close>

type_synonym indexed_evaluation = "nat \<times> hand_rank \<times> int list"

fun evaluate_all :: "card list list \<Rightarrow> card list \<Rightarrow> nat \<Rightarrow> error + indexed_evaluation list" where
  "evaluate_all [] community i = Inr []"
| "evaluate_all (player_cards # rest) community i =
     (case evaluate_hand (player_cards @ community) of Inl e \<Rightarrow> Inl e
      | Inr (rank, tiebreakers) \<Rightarrow>
          (case evaluate_all rest community (Suc i) of Inl e \<Rightarrow> Inl e
           | Inr evs \<Rightarrow> Inr ((i, rank, tiebreakers) # evs)))"

text \<open>Python's \<open><\<close> on lists of integers and on the sort key \<open>(x[1].value, x[2])\<close>.\<close>

fun list_less :: "int list \<Rightarrow> int list \<Rightarrow> bool" where
  "list_less [] [] = False"
| "list_less [] (y # ys) = True"
| "list_less (x # xs) [] = False"
| "list_less (x # xs) (y # ys) = (if x = y then list_less xs ys else x < y)"

definition sort_key :: "indexed_evaluation \<Rightarrow> int \<times> int list" where
  "sort_key x = (hand_rank_value (fst (snd x)), snd (snd x))"

definition key_less :: "int \<times> int list \<Rightarrow> int \<times> int list \<Rightarrow> bool" where
  "key_less k1 k2 =
     (if fst k1 = fst k2 then list_less (snd k1) (snd k2) else fst k1 < fst k2)"

text \<open>\<open>evaluations.sort(key=..., reverse=True)\<close>: descending by key, elements of equal key
  staying in their original order.\<close>

fun insert_desc :: "indexed_evaluation \<Rightarrow> indexed_evaluation list \<Rightarrow> indexed_evaluation list" where
  "insert_desc x [] = [x]"
| "insert_desc x (y # ys) =
     (if key_less (sort_key x) (sort_key y) then y # insert_desc x ys else x # y # ys)"

definition sort_desc :: "indexed_evaluation list \<Rightarrow> indexed_evaluation list" where
  "sort_desc evs = foldr insert_desc evs []"

text \<open>The grouping loop: the inner loop collects the run of evaluations equal to the one at
  \<open>i\<close>, the outer loop continues behind the run.\<close>

function group_ties :: "indexed_evaluation list \<Rightarrow> nat list" where
  "group_ties [] = []"
| "group_ties (ev # evs) =
     (fst ev # map fst (takeWhile (\<lambda>x. snd x = snd ev) evs))
       @ group_ties (dropWhile (\<lambda>x. snd x = snd ev) evs)"
  by pat_completeness auto
termination
  by (relation "measure length") (auto simp: less_Suc_eq_le length_dropWhile_le)

definition compare_player_hands :: "card list list \<Rightarrow> card list \<Rightarrow> error + nat list" where
  "compare_player_hands players_cards community =
     (case evaluate_all players_cards community 0 of Inl e \<Rightarrow> Inl e
      | Inr evaluations \<Rightarrow> Inr (group_ties (sort_desc evaluations)))"

section \<open>The betting engine (poker/game.py)\<close>

datatype betting_round = PRE_FLOP | FLOP | TURN | RIVER | SHOWDOWN

datatype game_state = WAITING_FOR_PLAYERS | IN_PROGRESS | FINISHED

fun betting_round_value :: "betting_round \<Rightarrow> string" where
  "betting_round_value PRE_FLOP = ''pre_flop''"
| "betting_round_value FLOP = ''flop''"
| "betting_round_value TURN = ''turn''"
| "betting_round_value RIVER = ''river''"
| "betting_round_value SHOWDOWN = ''showdown''"

text \<open>
  The table. A \<open>Player\<close> object is identified with its seat, the index at which it stands
  in \<open>players\<close>: the list is the store of the player objects, and every list of players the
  code builds (active players, eligible players, the players of a side pot, the winners) is
  a list of seats. The field \<open>current_bet\<close> of the table is \<open>game_current_bet\<close> here, since
  the player record has a field of that name. \<open>hand_history\<close> is never read or written by
  the engine and is left out.
\<close>

record game =
  game_id :: string
  small_blind :: int
  big_blind :: int
  players :: "player list"
  deck :: "card list"
  community_cards :: "card list"
  pot :: int
  side_pots :: "(int \<times> nat list) list"
  game_current_bet :: int
  betting_round :: betting_round
  dealer_position :: nat
  small_blind_position :: nat
  big_blind_position :: nat
  current_player_index :: nat
  state :: game_state
  winners :: "(nat \<times> int) list"
  acted_this_round :: "string set"

text \<open>What the two entry points return: \<open>start_hand\<close> a bare \<open>bool\<close>, \<open>process_action\<close> a
  pair \<open>(success, message)\<close>.\<close>

datatype retval = RBool bool | RTuple bool string

fun succeeded :: "retval \<Rightarrow> bool" where
  "succeeded (RBool b) = b"
| "succeeded (RTuple b m) = b"

fun message_of :: "retval \<Rightarrow> string option" where
  "message_of (RBool b) = None"
| "message_of (RTuple b m) = Some m"

text \<open>\<open>str\<close> of an integer, for the formatted messages.\<close>

fun show_nat :: "nat \<Rightarrow> string" where
  "show_nat n =
     (if n < 10 then [char_of (48 + n)]
      else show_nat (n div 10) @ [char_of (48 + n mod 10)])"

definition show_int :: "int \<Rightarrow> string" where
  "show_int i = (if i < 0 then CHR ''-'' # show_nat (nat (- i)) else show_nat (nat i))"

definition get_active_players :: "game \<Rightarrow> nat list" where
  "get_active_players g =
     filter (\<lambda>i. is_active (players g ! i) \<and> \<not> is_sitting_out (players g ! i))
       [0..<length (players g)]"

definition get_eligible_players :: "game \<Rightarrow> nat list" where
  "get_eligible_players g = filter (\<lambda>i. can_act (players g ! i)) (get_active_players g)"

definition get_current_player :: "game \<Rightarrow> nat option" where
  "get_current_player g =
     (let eligible = get_eligible_players g in
      if eligible = [] then None
      else Some (eligible ! (current_player_index g mod length eligible)))"

text \<open>\<open>player.bet(amount)\<close> on the player at a seat: the amount moved and the table with the
  updated player.\<close>

definition player_bet :: "game \<Rightarrow> nat \<Rightarrow> int \<Rightarrow> int \<times> game" where
  "player_bet g i amount =
     (let (bet_amount, p) = bet (players g ! i) amount
      in (bet_amount, g\<lparr>players := (players g)[i := p]\<rparr>))"

definition player_add_chips :: "game \<Rightarrow> nat \<Rightarrow> int \<Rightarrow> game" where
  "player_add_chips g i amount = g\<lparr>players := (players g)[i := add_chips (players g ! i) amount]\<rparr>"

definition mark_acted :: "game \<Rightarrow> nat \<Rightarrow> game" where
  "mark_acted g i =
     g\<lparr>acted_this_round := insert (player_id (players g ! i)) (acted_this_round g)\<rparr>"

text \<open>\<open>list.index\<close>, \<open>None\<close> standing for the \<open>ValueError\<close> that the caller catches.\<close>

fun index_of :: "nat list \<Rightarrow> nat \<Rightarrow> nat option" where
  "index_of [] x = None"
| "index_of (y # ys) x = (if y = x then Some 0 else map_option Suc (index_of ys x))"

definition reset_betting_round :: "game \<Rightarrow> error + game" where
  "reset_betting_round g =
     (let g1 = g\<lparr>game_current_bet := 0, acted_this_round := {}\<rparr>;
          g2 = g1\<lparr>players := map reset_for_new_round (players g1)\<rparr>;
          active = get_active_players g2
      in if active \<noteq> [] then
           (if dealer_position g2 < length (players g2) then
              (case index_of active (dealer_position g2) of
                 Some dealer_idx \<Rightarrow>
                   Inr (g2\<lparr>current_player_index := (dealer_idx + 1) mod length active\<rparr>)
               | None \<Rightarrow> Inr (g2\<lparr>current_player_index := 0\<rparr>))
            else Inl IndexError)
         else Inr g2)"

definition deal_flop :: "game \<Rightarrow> error + game" where
  "deal_flop g =
     (let g1 = g\<lparr>betting_round := FLOP\<rparr> in
      case deal (deck g1) 1 of Inl e \<Rightarrow> Inl e
      | Inr (burn, d1) \<Rightarrow>
          (case deal d1 3 of Inl e \<Rightarrow> Inl e
           | Inr (cs, d2) \<Rightarrow> reset_betting_round (g1\<lparr>deck := d2, community_cards := cs\<rparr>)))"

text \<open>The turn and the river differ in the street they set only.\<close>

definition deal_one :: "betting_round \<Rightarrow> game \<Rightarrow> error + game" where
  "deal_one street g =
     (let g1 = g\<lparr>betting_round := street\<rparr> in
      case deal (deck g1) 1 of Inl e \<Rightarrow> Inl e
      | Inr (burn, d1) \<Rightarrow>
          (case deal d1 1 of Inl e \<Rightarrow> Inl e
           | Inr (cs, d2) \<Rightarrow>
               (case first cs of Inl e \<Rightarrow> Inl e
                | Inr c \<Rightarrow>
                    reset_betting_round
                      (g1\<lparr>deck := d2, community_cards := community_cards g1 @ [c]\<rparr>))))"

definition deal_turn :: "game \<Rightarrow> error + game" where
  "deal_turn g = deal_one TURN g"

definition deal_river :: "game \<Rightarrow> error + game" where
  "deal_river g = deal_one RIVER g"

text \<open>The loop of \<open>_calculate_side_pots\<close> over \<open>enumerate(bet_amounts)\<close>; \<open>ps\<close> is the player
  store, \<open>active\<close> the active seats, \<open>acc\<close> the side pots appended so far.\<close>

fun side_pots_loop :: "player list \<Rightarrow> nat list \<Rightarrow> int list \<Rightarrow> (nat \<times> int) list \<Rightarrow> int
    \<Rightarrow> (int \<times> nat list) list \<Rightarrow> (int \<times> nat list) list" where
  "side_pots_loop ps active bet_amounts [] remaining_pot acc = acc"
| "side_pots_loop ps active bet_amounts ((i, bet_amount) # rest) remaining_pot acc =
     (if remaining_pot \<le> 0 then acc
      else
        let eligible = filter (\<lambda>q. total_bet_this_round (ps ! q) \<ge> bet_amount) active;
            pot_contribution =
              (if i = 0 then bet_amount * int (length eligible)
               else (bet_amount - bet_amounts ! (i - 1)) * int (length eligible))
        in if pot_contribution > 0
           then side_pots_loop ps active bet_amounts rest (remaining_pot - pot_contribution)
                  (acc @ [(pot_contribution, eligible)])
           else side_pots_loop ps active bet_amounts rest remaining_pot acc)"

definition calculate_side_pots :: "game \<Rightarrow> game" where
  "calculate_side_pots g =
     (let active_players = get_active_players g in
      if active_players = [] then g
      else
        let bet_amounts =
              sorted_desc (remdups (map (\<lambda>i. total_bet_this_round (players g ! i)) active_players))
        in g\<lparr>side_pots :=
               side_pots_loop (players g) active_players bet_amounts
                 (enumerate 0 bet_amounts) (pot g) []\<rparr>)"

text \<open>One round of the distribution loop of \<open>_showdown\<close>, for the side pot \<open>sp\<close>. The
  indices \<open>i\<close> are positions in \<open>active_players\<close>; \<open>ranked_players\<close> has one entry for each
  active player (\<open>compare_player_hands_length\<close> below), so \<open>ranked_players[i]\<close> is in range,
  and \<open>winner_idx\<close> is one of the \<open>eligible_indices\<close>. In \<open>showdown\<close> the ranking of a list
  of active players that is not empty is not empty.\<close>

definition distribute_side_pot :: "nat list \<Rightarrow> nat list \<Rightarrow> game \<Rightarrow> int \<times> nat list \<Rightarrow> game" where
  "distribute_side_pot active_players ranked_players g sp =
     (let (pot_amount, eligible_players) = sp;
          eligible_indices =
            filter (\<lambda>i. active_players ! i \<in> set eligible_players) [0..<length active_players];
          ws = map (\<lambda>i. ranked_players ! i)
                 (filter (\<lambda>i. ranked_players ! i \<in> set eligible_indices) eligible_indices)
      in if ws \<noteq> [] then
           let winner_idx = hd ws;
               per_player = pot_amount div int (length (filter (\<lambda>w. w = hd ws) ws));
               g1 = player_add_chips g (active_players ! winner_idx) per_player
           in g1\<lparr>winners := winners g1 @ [(active_players ! winner_idx, per_player)]\<rparr>
         else g)"

definition showdown :: "game \<Rightarrow> error + game" where
  "showdown g =
     (let g1 = g\<lparr>betting_round := SHOWDOWN\<rparr>;
          active_players = get_active_players g1
      in if length active_players = 0 then Inr g1
         else
           let g2 = calculate_side_pots g1;
               player_hands = map (\<lambda>i. hand (players g2 ! i)) active_players
           in case compare_player_hands player_hands (community_cards g2) of
                Inl e \<Rightarrow> Inl e
              | Inr ranked_players \<Rightarrow>
                  let g3 = g2\<lparr>winners := []\<rparr>;
                      g4 =
                        (if side_pots g3 \<noteq> []
                         then foldl (distribute_side_pot active_players ranked_players) g3
                                (side_pots g3)
                         else
                           let winner_idx = hd ranked_players;
                               g3a = player_add_chips g3 (active_players ! winner_idx) (pot g3)
                           in g3a\<lparr>winners := [(active_players ! winner_idx, pot g3a)]\<rparr>)
                  in Inr (g4\<lparr>state := FINISHED\<rparr>))"

definition check_betting_round_complete :: "game \<Rightarrow> error + game" where
  "check_betting_round_complete g =
     (let active_players = get_active_players g in
      if length active_players = 1 then
        let winner = hd active_players;
            g1 = player_add_chips g winner (pot g)
        in Inr (g1\<lparr>winners := [(winner, pot g1)], state := FINISHED\<rparr>)
      else
        (case betting_round g of
           PRE_FLOP \<Rightarrow> deal_flop g
         | FLOP \<Rightarrow> deal_turn g
         | TURN \<Rightarrow> deal_river g
         | RIVER \<Rightarrow> showdown g
         | SHOWDOWN \<Rightarrow> Inr g))"

definition all_players_have_acted :: "game \<Rightarrow> bool" where
  "all_players_have_acted g =
     (let eligible = get_eligible_players g in
      if length eligible = 0 then True
      else set (map (\<lambda>i. player_id (players g ! i)) eligible) \<subseteq> acted_this_round g)"

definition advance_to_next_player :: "game \<Rightarrow> error + game" where
  "advance_to_next_player g =
     (let eligible = get_eligible_players g in
      if eligible = [] then check_betting_round_complete g
      else
        let g1 = g\<lparr>current_player_index := (current_player_index g + 1) mod length eligible\<rparr>
        in case get_current_player g1 of
             None \<Rightarrow> check_betting_round_complete g1
           | Some current_player \<Rightarrow>
               let all_bets_equal =
                     list_all (\<lambda>i. current_bet (players g1 ! i) = game_current_bet g1
                                  \<or> is_all_in (players g1 ! i) \<or> \<not> is_active (players g1 ! i))
                       (get_active_players g1)
               in if all_bets_equal \<and> all_players_have_acted g1
                  then check_betting_round_complete g1
                  else Inr g1)"

subsection \<open>\<open>start_hand\<close>\<close>

text \<open>The seats that take part in the next hand (the local \<open>active_players\<close> of \<open>start_hand\<close>).\<close>

definition hand_players :: "game \<Rightarrow> nat list" where
  "hand_players g =
     filter (\<lambda>i. \<not> is_sitting_out (players g ! i) \<and> chips (players g ! i) > 0)
       [0..<length (players g)]"

text \<open>The loop that deals two hole cards to every seat of the list.\<close>

fun deal_hole_cards :: "nat list \<Rightarrow> game \<Rightarrow> error + game" where
  "deal_hole_cards [] g = Inr g"
| "deal_hole_cards (i # rest) g =
     (case deal (deck g) 2 of Inl e \<Rightarrow> Inl e
      | Inr (cs, d) \<Rightarrow>
          deal_hole_cards rest
            (g\<lparr>deck := d, players := (players g)[i := (players g ! i)\<lparr>hand := cs\<rparr>]\<rparr>))"

text \<open>
  The body of \<open>start_hand\<close> behind the test on the number of players, in the steps the
  code comments name. \<open>shuffled\<close> is the deck as \<open>reset\<close> followed by \<open>shuffle\<close> leaves it: the
  random permutation is an input of the model.
\<close>

definition reset_hand_state :: "game \<Rightarrow> card list \<Rightarrow> game" where
  "reset_hand_state g shuffled =
     (let g1 = g\<lparr>deck := shuffled, community_cards := [], pot := 0, side_pots := [],
                game_current_bet := 0, betting_round := PRE_FLOP, winners := []\<rparr>
      in g1\<lparr>players := map reset_for_new_hand (players g1)\<rparr>)"

definition update_positions :: "game \<Rightarrow> nat \<Rightarrow> game" where
  "update_positions g n =
     (let g1 = g\<lparr>dealer_position := (dealer_position g + 1) mod n\<rparr>;
          g2 = g1\<lparr>small_blind_position := (dealer_position g1 + 1) mod n\<rparr>
      in g2\<lparr>big_blind_position := (dealer_position g2 + 2) mod n\<rparr>)"

definition post_blinds :: "game \<Rightarrow> nat list \<Rightarrow> game" where
  "post_blinds g active_players =
     (let sb_player = active_players ! small_blind_position g;
          bb_player = active_players ! big_blind_position g;
          sb_amount = min (small_blind g) (chips (players g ! sb_player));
          bb_amount = min (big_blind g) (chips (players g ! bb_player));
          (sb_bet, g1) = player_bet g sb_player sb_amount;
          g2 = g1\<lparr>pot := pot g1 + sb_bet\<rparr>;
          (bb_bet, g3) = player_bet g2 bb_player bb_amount;
          g4 = g3\<lparr>pot := pot g3 + bb_bet\<rparr>
      in g4\<lparr>game_current_bet :=
              max (current_bet (players g4 ! sb_player)) (current_bet (players g4 ! bb_player))\<rparr>)"

definition begin_hand :: "game \<Rightarrow> nat list \<Rightarrow> card list \<Rightarrow> error + game" where
  "begin_hand g active_players shuffled =
     (let n = length active_players;
          g1 = update_positions (reset_hand_state g shuffled) n;
          g2 = post_blinds g1 active_players
      in case deal_hole_cards active_players g2 of Inl e \<Rightarrow> Inl e
         | Inr g3 \<Rightarrow>
             Inr (g3\<lparr>acted_this_round :=
                       {player_id (players g3 ! (active_players ! small_blind_position g3)),
                        player_id (players g3 ! (active_players ! big_blind_position g3))},
                     current_player_index := (big_blind_position g3 + 1) mod n,
                     state := IN_PROGRESS\<rparr>))"

definition start_hand :: "game \<Rightarrow> card list \<Rightarrow> error + (retval \<times> game)" where
  "start_hand g shuffled =
     (let active_players = hand_players g in
      if length active_players < 2 then Inr (RBool False, g)
      else (case begin_hand g active_players shuffled of Inl e \<Rightarrow> Inl e
            | Inr g' \<Rightarrow> Inr (RBool True, g')))"

subsection \<open>\<open>process_action\<close>\<close>

text \<open>A rejected request: the failure result and the table as it was.\<close>

definition reject :: "game \<Rightarrow> string \<Rightarrow> error + (retval \<times> game)" where
  "reject g msg = Inr (RTuple False msg, g)"

text \<open>The end of every accepted action: \<open>self._advance_to_next_player()\<close> and then
  \<open>return True, message\<close>, the message being formatted from the table as the advance left it.\<close>

definition accept :: "game \<Rightarrow> (game \<Rightarrow> string) \<Rightarrow> error + (retval \<times> game)" where
  "accept g msg =
     (case advance_to_next_player g of Inl e \<Rightarrow> Inl e
      | Inr g' \<Rightarrow> Inr (RTuple True (msg g'), g'))"

definition do_fold :: "game \<Rightarrow> nat \<Rightarrow> error + (retval \<times> game)" where
  "do_fold g player =
     (let g1 = g\<lparr>players := (players g)[player := fold_player (players g ! player)]\<rparr>;
          g2 = mark_acted g1 player
      in accept g2 (\<lambda>g'. name (players g' ! player) @ '' folds''))"

definition do_check :: "game \<Rightarrow> nat \<Rightarrow> error + (retval \<times> game)" where
  "do_check g player =
     (let amount_to_call = game_current_bet g - current_bet (players g ! player) in
      if amount_to_call > 0 then reject g ''Cannot check, must call or fold''
      else accept (mark_acted g player) (\<lambda>g'. name (players g' ! player) @ '' checks''))"

definition do_call :: "game \<Rightarrow> nat \<Rightarrow> error + (retval \<times> game)" where
  "do_call g player =
     (let amount_to_call = game_current_bet g - current_bet (players g ! player) in
      if amount_to_call = 0 then reject g ''Nothing to call, check instead''
      else
        let call_amount = min amount_to_call (chips (players g ! player));
            (bet_amount, g1) = player_bet g player call_amount;
            g2 = g1\<lparr>pot := pot g1 + bet_amount\<rparr>;
            g3 = mark_acted g2 player
        in accept g3 (\<lambda>g'. name (players g' ! player) @ '' calls '' @ show_int bet_amount))"

definition do_bet :: "game \<Rightarrow> nat \<Rightarrow> int \<Rightarrow> error + (retval \<times> game)" where
  "do_bet g player amount =
     (let min_raise = big_blind g in
      if game_current_bet g > 0 then reject g ''Cannot bet, must call or raise''
      else if amount < min_raise then reject g (''Bet must be at least '' @ show_int min_raise)
      else if amount > chips (players g ! player) then reject g ''Insufficient chips''
      else
        let (bet_amount, g1) = player_bet g player amount;
            g2 = g1\<lparr>game_current_bet := current_bet (players g1 ! player)\<rparr>;
            g3 = g2\<lparr>pot := pot g2 + bet_amount\<rparr>;
            g4 = mark_acted (g3\<lparr>acted_this_round := {}\<rparr>) player
        in accept g4 (\<lambda>g'. name (players g' ! player) @ '' bets '' @ show_int bet_amount))"

definition do_raise :: "game \<Rightarrow> nat \<Rightarrow> int \<Rightarrow> error + (retval \<times> game)" where
  "do_raise g player amount =
     (let amount_to_call = game_current_bet g - current_bet (players g ! player);
          min_raise = big_blind g
      in
      if amount_to_call = 0 then reject g ''Nothing to raise, bet instead''
      else
        let total_raise_amount = amount_to_call + amount in
        if amount < min_raise
        then reject g (''Raise must be at least '' @ show_int min_raise @ '' more than current bet'')
        else if total_raise_amount > chips (players g ! player) then reject g ''Insufficient chips''
        else
          let (bet_amount, g1) = player_bet g player total_raise_amount;
              g2 = g1\<lparr>game_current_bet := current_bet (players g1 ! player)\<rparr>;
              g3 = g2\<lparr>pot := pot g2 + bet_amount\<rparr>;
              g4 = mark_acted (g3\<lparr>acted_this_round := {}\<rparr>) player
          in accept g4
               (\<lambda>g'. name (players g' ! player) @ '' raises to '' @ show_int (game_current_bet g')))"

definition do_all_in :: "game \<Rightarrow> nat \<Rightarrow> error + (retval \<times> game)" where
  "do_all_in g player =
     (let (all_in_amount, g1) = player_bet g player (chips (players g ! player));
          g2 = (if all_in_amount > game_current_bet g1
                then g1\<lparr>game_current_bet := current_bet (players g1 ! player),
                        acted_this_round := {}\<rparr>
                else g1);
          g3 = g2\<lparr>pot := pot g2 + all_in_amount\<rparr>;
          g4 = mark_acted g3 player
      in accept g4
           (\<lambda>g'. name (players g' ! player) @ '' goes all-in with '' @ show_int all_in_amount))"

text \<open>\<open>process_action(player, action, amount)\<close>; \<open>player\<close> is a seat, and a seat that does not
  exist stands for a player object that is not at the table, which the membership test
  rejects as well.\<close>

definition process_action :: "game \<Rightarrow> nat \<Rightarrow> string \<Rightarrow> int \<Rightarrow> error + (retval \<times> game)" where
  "process_action g player action amount =
     (if state g \<noteq> IN_PROGRESS then reject g ''Game is not in progress''
      else if player \<notin> set (get_eligible_players g) then reject g ''Player cannot act''
      else if Some player \<noteq> get_current_player g
        then reject g (''Not player'' @ [CHR 0x27] @ ''s turn'')
      else if action = FOLD then do_fold g player
      else if action = CHECK then do_check g player
      else if action = CALL then do_call g player
      else if action = BET then do_bet g player amount
      else if action = RAISE then do_raise g player amount
      else if action = ALL_IN then do_all_in g player
      else reject g (''Unknown action: '' @ action))"

subsection \<open>\<open>get_game_state_for_player\<close>\<close>

record player_view =
  view_name :: string
  view_chips :: int
  view_current_bet :: int
  view_is_active :: bool
  view_is_all_in :: bool

record snapshot =
  snap_game_id :: string
  snap_betting_round :: string
  snap_pot :: int
  snap_current_bet :: int
  snap_current_bet_to_call :: int
  snap_min_raise :: int
  snap_community_cards :: "card list"
  snap_hand :: "card list"
  snap_chips :: int
  snap_player_current_bet :: int
  snap_players :: "player_view list"
  snap_is_your_turn :: bool

definition view_of :: "player \<Rightarrow> player_view" where
  "view_of p =
     \<lparr>view_name = name p, view_chips = chips p, view_current_bet = current_bet p,
      view_is_active = is_active p, view_is_all_in = is_all_in p\<rparr>"

definition get_game_state_for_player :: "game \<Rightarrow> nat \<Rightarrow> snapshot" where
  "get_game_state_for_player g player =
     \<lparr>snap_game_id = game_id g,
      snap_betting_round = betting_round_value (betting_round g),
      snap_pot = pot g,
      snap_current_bet = game_current_bet g,
      snap_current_bet_to_call = game_current_bet g - current_bet (players g ! player),
      snap_min_raise = big_blind g,
      snap_community_cards = community_cards g,
      snap_hand = hand (players g ! player),
      snap_chips = chips (players g ! player),
      snap_player_current_bet = current_bet (players g ! player),
      snap_players = map view_of (players g),
      snap_is_your_turn = (get_current_player g = Some player)\<rparr>"

subsection \<open>Running a hand\<close>

text \<open>A new table (\<open>__init__\<close>) with the given seats, and a new player with a stack.\<close>

definition new_player :: "string \<Rightarrow> string \<Rightarrow> int \<Rightarrow> player" where
  "new_player pid nm stack =
     \<lparr>player_id = pid, name = nm, chips = stack, hand = [], current_bet = 0,
      total_bet_this_round = 0, is_active = True, is_all_in = False, is_sitting_out = False\<rparr>"

definition new_game :: "string \<Rightarrow> int \<Rightarrow> int \<Rightarrow> player list \<Rightarrow> game" where
  "new_game gid sb bb ps =
     \<lparr>game_id = gid, small_blind = sb, big_blind = bb, players = ps, deck = reset_deck,
      community_cards = [], pot = 0, side_pots = [], game_current_bet = 0,
      betting_round = PRE_FLOP, dealer_position = 0, small_blind_position = 0,
      big_blind_position = 0, current_player_index = 0, state = WAITING_FOR_PLAYERS,
      winners = [], acted_this_round = {}\<rparr>"

text \<open>A sequence of calls of \<open>process_action\<close>, each on the table the one before left; the
  results of the calls are collected.\<close>

fun run_actions :: "game \<Rightarrow> (nat \<times> string \<times> int) list \<Rightarrow> error + (retval list \<times> game)" where
  "run_actions g [] = Inr ([], g)"
| "run_actions g ((player, action, amount) # rest) =
     (case process_action g player action amount of Inl e \<Rightarrow> Inl e
      | Inr (r, g1) \<Rightarrow>
          (case run_actions g1 rest of Inl e \<Rightarrow> Inl e
           | Inr (rs, g2) \<Rightarrow> Inr (r # rs, g2)))"

text \<open>\<open>start_hand\<close> followed by a sequence of actions.\<close>

definition play_hand :: "game \<Rightarrow> card list \<Rightarrow> (nat \<times> string \<times> int) list
    \<Rightarrow> error + (retval list \<times> game)" where
  "play_hand g shuffled actions =
     (case start_hand g shuffled of Inl e \<Rightarrow> Inl e
      | Inr (r, g1) \<Rightarrow>
          (case run_actions g1 actions of Inl e \<Rightarrow> Inl e
           | Inr (rs, g2) \<Rightarrow> Inr (r # rs, g2)))"

definition total_chips :: "game \<Rightarrow> int" where
  "total_chips g = sum_list (map chips (players g))"

section \<open>Notions of the specification and example tables\<close>

text \<open>Two evaluations of the same category carry tiebreaker lists of the same length.\<close>

definition same_shape :: "evaluation \<Rightarrow> evaluation \<Rightarrow> bool" where
  "same_shape x y = (fst x = fst y \<longrightarrow> length (snd x) = length (snd y))"

text \<open>The number of tiebreakers that the specification gives each category.\<close>

fun tiebreaker_count :: "hand_rank \<Rightarrow> nat" where
  "tiebreaker_count HIGH_CARD = 5"
| "tiebreaker_count PAIR = 4"
| "tiebreaker_count TWO_PAIR = 3"
| "tiebreaker_count THREE_OF_A_KIND = 3"
| "tiebreaker_count STRAIGHT = 1"
| "tiebreaker_count FLUSH = 5"
| "tiebreaker_count FULL_HOUSE = 2"
| "tiebreaker_count FOUR_OF_A_KIND = 2"
| "tiebreaker_count STRAIGHT_FLUSH = 1"
| "tiebreaker_count ROYAL_FLUSH = 1"

text \<open>Three five-card hands: a pair of nines, a pair of fives, ace high.\<close>

definition pair_of_nines :: "card list" where
  "pair_of_nines =
     [Card NINE SPADES, Card NINE HEARTS, Card ACE DIAMONDS, Card SEVEN CLUBS, Card THREE SPADES]"

definition pair_of_fives :: "card list" where
  "pair_of_fives =
     [Card FIVE SPADES, Card FIVE HEARTS, Card KING DIAMONDS, Card SEVEN CLUBS, Card THREE SPADES]"

definition ace_high :: "card list" where
  "ace_high =
     [Card ACE SPADES, Card JACK HEARTS, Card EIGHT DIAMONDS, Card SEVEN CLUBS, Card THREE SPADES]"

text \<open>The chips of a hand: the stacks, and the pot as long as the hand is not finished.\<close>

definition chips_in_play :: "game \<Rightarrow> int" where
  "chips_in_play g = total_chips g + (if state g = FINISHED then 0 else pot g)"

text \<open>The rank values of a list of cards.\<close>

definition ranks_of :: "card list \<Rightarrow> int list" where
  "ranks_of cards = map (\<lambda>c. rank_value (card_rank c)) cards"

text \<open>An all-in player, as \<open>bet\<close> leaves a player who commits the whole stack.\<close>

definition all_in_player :: player where
  "all_in_player = snd (bet (new_player ''p1'' ''Alice'' 100) 100)"

text \<open>The table a run ends with, and whether every call of the run was accepted.\<close>

definition final_table :: "error + (retval list \<times> game) \<Rightarrow> game option" where
  "final_table r = (case r of Inl e \<Rightarrow> None | Inr (rs, g) \<Rightarrow> Some g)"

definition all_accepted :: "error + (retval list \<times> game) \<Rightarrow> bool" where
  "all_accepted r = (case r of Inl e \<Rightarrow> False | Inr (rs, g) \<Rightarrow> list_all succeeded rs)"

text \<open>
  Tables as the tests of the repository build them (blinds 5 and 10). In the runs below the
  shuffle leaves the deck in the order of \<open>reset\<close>, one of the permutations it can produce.
  With two players seat 0 posts the small blind and acts first before the flop and on every
  later street; with three players seat 2 posts the small blind, seat 0 the big blind, and
  seat 1 acts first before the flop.
\<close>

definition heads_up :: game where
  "heads_up = new_game ''game1'' 5 10
     [new_player ''p1'' ''Alice'' 1000, new_player ''p2'' ''Bob'' 1000]"

definition short_carol :: game where
  "short_carol = new_game ''game1'' 5 10
     [new_player ''p1'' ''Alice'' 1000, new_player ''p2'' ''Bob'' 1000,
      new_player ''p3'' ''Carol'' 35]"

definition short_stacks :: game where
  "short_stacks = new_game ''game1'' 5 10
     [new_player ''p1'' ''Alice'' 210, new_player ''p2'' ''Bob'' 110,
      new_player ''p3'' ''Carol'' 60]"

definition lone_table :: game where
  "lone_table = new_game ''game1'' 5 10 [new_player ''p1'' ''Alice'' 1000]"

text \<open>Heads-up: the small blind calls, then folds first to act on the flop.\<close>

definition fold_on_flop :: "(nat \<times> string \<times> int) list" where
  "fold_on_flop = [(0, CALL, 0), (0, FOLD, 0)]"

text \<open>Heads-up: checked to the river, where seat 0 bets 10 and seat 1 calls.\<close>

definition river_bet_called :: "(nat \<times> string \<times> int) list" where
  "river_bet_called =
     [(0, CALL, 0), (0, CHECK, 0), (1, CHECK, 0), (0, CHECK, 0), (1, CHECK, 0),
      (0, BET, 10), (1, CALL, 0)]"

text \<open>Heads-up: checked on every street to the showdown.\<close>

definition checked_down :: "(nat \<times> string \<times> int) list" where
  "checked_down =
     [(0, CALL, 0), (0, CHECK, 0), (1, CHECK, 0), (0, CHECK, 0), (1, CHECK, 0),
      (0, CHECK, 0), (1, CHECK, 0)]"

text \<open>Three players: seat 1 raises by 20 to 30, then the small blind, who has posted 5
  and holds 30 more, goes all-in.\<close>

definition raise_then_all_in :: "(nat \<times> string \<times> int) list" where
  "raise_then_all_in = [(1, RAISE, 20), (2, ALL_IN, 0)]"

text \<open>Three players: everybody calls before the flop and checks to the river, where the
  three go all-in with the 50, 100 and 200 chips they have left.\<close>

definition all_in_on_river :: "(nat \<times> string \<times> int) list" where
  "all_in_on_river =
     [(1, CALL, 0), (2, CALL, 0), (2, CHECK, 0), (0, CHECK, 0), (1, CHECK, 0),
      (2, CHECK, 0), (0, CHECK, 0), (1, CHECK, 0),
      (2, ALL_IN, 0), (1, ALL_IN, 0), (0, ALL_IN, 0)]"

text \<open>The side-pot scenario of the specification: three all-in players who committed 200,
  100 and 50 to a pot of 350.\<close>

definition side_pot_scenario :: game where
  "side_pot_scenario =
     (new_game ''game1'' 5 10
        [snd (bet (new_player ''p1'' ''Alice'' 200) 200),
         snd (bet (new_player ''p2'' ''Bob'' 100) 100),
         snd (bet (new_player ''p3'' ''Carol'' 50) 50)])
       \<lparr>pot := 350, betting_round := RIVER, state := IN_PROGRESS\<rparr>"

text \<open>A wheel in mixed suits.\<close>

definition wheel :: "card list" where
  "wheel =
     [Card ACE SPADES, Card FIVE HEARTS, Card FOUR DIAMONDS, Card THREE CLUBS, Card TWO SPADES]"

text \<open>Two tables that differ in nothing but the hole cards of their players.\<close>

definition same_but_hands :: "game \<Rightarrow> game \<Rightarrow> bool" where
  "same_but_hands g g' =
     (g'\<lparr>players := []\<rparr> = g\<lparr>players := []\<rparr>
      \<and> map (\<lambda>p. p\<lparr>hand := []\<rparr>) (players g') = map (\<lambda>p. p\<lparr>hand := []\<rparr>) (players g))"

text \<open>The heads-up table with hole cards dealt, and the same table with other cards in
  the hand of seat 1.\<close>

definition dealt_table :: game where
  "dealt_table = heads_up\<lparr>players :=
     [(new_player ''p1'' ''Alice'' 1000)\<lparr>hand := [Card ACE SPADES, Card KING SPADES]\<rparr>,
      (new_player ''p2'' ''Bob'' 1000)\<lparr>hand := [Card TWO CLUBS, Card SEVEN DIAMONDS]\<rparr>]\<rparr>"

definition dealt_table_other :: game where
  "dealt_table_other = heads_up\<lparr>players :=
     [(new_player ''p1'' ''Alice'' 1000)\<lparr>hand := [Card ACE SPADES, Card KING SPADES]\<rparr>,
      (new_player ''p2'' ''Bob'' 1000)\<lparr>hand := [Card QUEEN HEARTS, Card QUEEN CLUBS]\<rparr>]\<rparr>"

section \<open>The chip ledger of a player\<close>

lemma remove_chips_inv:
  "player_inv p \<Longrightarrow> 0 \<le> n \<Longrightarrow> player_inv (snd (remove_chips p n))"
  by (simp add: player_inv_def remove_chips_def Let_def min_def)

lemma bet_inv: "player_inv p \<Longrightarrow> 0 \<le> n \<Longrightarrow> player_inv (snd (bet p n))"
  by (auto simp: player_inv_def remove_chips_def bet_def Let_def min_def)

lemma resets_inv:
  "player_inv p \<Longrightarrow> player_inv (fold_player p)"
  "player_inv p \<Longrightarrow> player_inv (reset_for_new_hand p)"
  "player_inv p \<Longrightarrow> player_inv (reset_for_new_round p)"
  by (simp_all add: player_inv_def fold_player_def reset_for_new_hand_def
      reset_for_new_round_def)

lemma add_chips_inv:
  "player_inv p \<Longrightarrow> 0 \<le> n \<Longrightarrow> 0 \<le> chips (add_chips p n)"
  "player_inv p \<Longrightarrow> 0 \<le> n \<Longrightarrow> \<not> is_all_in p \<Longrightarrow> player_inv (add_chips p n)"
  "is_all_in (add_chips p n) = is_all_in p"
  by (simp_all add: player_inv_def add_chips_def)

lemma committed_frame:
  "current_bet (add_chips p n) = current_bet p"
  "total_bet_this_round (add_chips p n) = total_bet_this_round p"
  "current_bet (snd (remove_chips p n)) = current_bet p"
  "total_bet_this_round (snd (remove_chips p n)) = total_bet_this_round p"
  "current_bet (fold_player p) = current_bet p"
  "total_bet_this_round (fold_player p) = total_bet_this_round p"
  by (simp_all add: add_chips_def remove_chips_def fold_player_def Let_def)

text \<open>
  Claim C7, as the code has it. For an amount that is not negative, \<open>remove_chips\<close>, \<open>bet\<close>,
  \<open>fold\<close> and the two resets keep the invariant (the stack is not negative, and an all-in
  player has an empty stack). \<open>add_chips\<close> keeps the stack non-negative and leaves the
  all-in flag as it is, so it keeps the invariant for a player who is not all-in. The
  committed amounts are left alone by \<open>add_chips\<close>, \<open>remove_chips\<close> and \<open>fold\<close>: only \<open>bet\<close>
  and the resets write them.
\<close>

theorem ledger_invariant:
  assumes "player_inv p" and "0 \<le> n"
  shows "player_inv (snd (remove_chips p n)) \<and> player_inv (snd (bet p n))
       \<and> player_inv (fold_player p) \<and> player_inv (reset_for_new_hand p)
       \<and> player_inv (reset_for_new_round p)
       \<and> 0 \<le> chips (add_chips p n) \<and> is_all_in (add_chips p n) = is_all_in p
       \<and> (\<not> is_all_in p \<longrightarrow> player_inv (add_chips p n))
       \<and> current_bet (add_chips p n) = current_bet p
       \<and> total_bet_this_round (add_chips p n) = total_bet_this_round p
       \<and> current_bet (snd (remove_chips p n)) = current_bet p
       \<and> total_bet_this_round (snd (remove_chips p n)) = total_bet_this_round p
       \<and> current_bet (fold_player p) = current_bet p
       \<and> total_bet_this_round (fold_player p) = total_bet_this_round p"
  using assms remove_chips_inv[of p n] bet_inv[of p n] resets_inv[of p] add_chips_inv[of p n]
    committed_frame
  by simp

theorem ledger_invariant_witness:
  "player_inv (new_player ''p1'' ''Alice'' 100) \<and> (0::int) \<le> 30
   \<and> player_inv (snd (bet (new_player ''p1'' ''Alice'' 100) 30))
   \<and> player_inv (snd (remove_chips (new_player ''p1'' ''Alice'' 100) 30))
   \<and> player_inv (add_chips (new_player ''p1'' ''Alice'' 100) 30)"
proof -
  have h: "player_inv (new_player ''p1'' ''Alice'' 100)"
    by (simp add: player_inv_def new_player_def)
  have n: "(0::int) \<le> 30" by simp
  have a: "\<not> is_all_in (new_player ''p1'' ''Alice'' 100)" by (simp add: new_player_def)
  show ?thesis using ledger_invariant[OF h n] h a by simp
qed

text \<open>Claim C7 as stated fails: crediting an all-in player, as the showdown does for an
  all-in winner, leaves the all-in flag set on a stack that is not empty.\<close>

theorem add_chips_breaks_all_in_invariant:
  "player_inv all_in_player \<and> \<not> player_inv (add_chips all_in_player 100)"
  by (simp add: all_in_player_def new_player_def bet_def remove_chips_def add_chips_def
      player_inv_def Let_def)

section \<open>The shape of the evaluations\<close>

lemma counter_add_sum: "sum_list (map snd (counter_add x kcs)) = Suc (sum_list (map snd kcs))"
  by (induction kcs) auto

lemma counter_add_pos: "\<forall>c\<in>set (map snd kcs). 1 \<le> c \<Longrightarrow> \<forall>c\<in>set (map snd (counter_add x kcs)). 1 \<le> c"
  by (induction kcs) (fastforce split: if_splits)+

lemma counter_foldl_sum:
  "sum_list (map snd (foldl (\<lambda>acc x. counter_add x acc) acc xs)) = sum_list (map snd acc) + length xs"
  by (induction xs arbitrary: acc) (simp_all add: counter_add_sum)

lemma counter_foldl_pos:
  "\<forall>c\<in>set (map snd acc). 1 \<le> c \<Longrightarrow>
   \<forall>c\<in>set (map snd (foldl (\<lambda>acc x. counter_add x acc) acc xs)). 1 \<le> c"
proof (induction xs arbitrary: acc)
  case Nil
  then show ?case by simp
next
  case (Cons x xs)
  show ?case using Cons.IH[OF counter_add_pos[OF Cons.prems]] by simp
qed

lemma counter_sum: "sum_list (map snd (counter xs)) = length xs"
  using counter_foldl_sum[of "[]" xs] by (simp add: counter_def)

lemma counter_pos: "\<forall>c\<in>set (map snd (counter xs)). 1 \<le> c"
  using counter_foldl_pos[of "[]" xs] by (simp add: counter_def)

lemma all_ones: "\<forall>c\<in>set cs. c = (1::nat) \<Longrightarrow> length (filter (\<lambda>c. c = 1) cs) = sum_list cs"
  by (induction cs) auto

lemma ones_beside:
  fixes cs :: "nat list"
  assumes pos: "\<forall>c\<in>set cs. 1 \<le> c" and cs: "cs = xs @ k # ys" and k: "k \<noteq> 1"
    and rest: "\<forall>c\<in>set (xs @ ys). c \<noteq> 1 \<longrightarrow> sum_list (xs @ ys) < c"
  shows "length (filter (\<lambda>c. c = 1) cs) = sum_list cs - k"
proof -
  have "\<forall>c\<in>set (xs @ ys). c = 1"
  proof
    fix c assume c: "c \<in> set (xs @ ys)"
    then have "c \<le> sum_list (xs @ ys)" by (rule member_le_sum_list) simp_all
    with rest c show "c = 1" by fastforce
  qed
  then have "length (filter (\<lambda>c. c = 1) (xs @ ys)) = sum_list (xs @ ys)" by (rule all_ones)
  then show ?thesis using k unfolding cs by simp
qed

lemma kickers_of_three:
  fixes cs :: "nat list"
  assumes pos: "\<forall>c\<in>set cs. 1 \<le> c" and sum: "sum_list cs = 5"
    and three: "3 \<in> set cs" and two: "2 \<notin> set cs"
  shows "length (filter (\<lambda>c. c = 1) cs) = 2"
proof -
  from three obtain xs ys where cs: "cs = xs @ 3 # ys" by (auto dest: split_list)
  have s: "sum_list (xs @ ys) = 2" using sum unfolding cs by simp
  have "\<forall>c\<in>set (xs @ ys). c \<noteq> 1 \<longrightarrow> sum_list (xs @ ys) < c"
  proof (intro ballI impI)
    fix c assume c: "c \<in> set (xs @ ys)" and n: "c \<noteq> 1"
    from c have "c \<in> set cs" unfolding cs by auto
    with pos two have "1 \<le> c" "c \<noteq> 2" by auto
    with n show "sum_list (xs @ ys) < c" unfolding s by simp
  qed
  from ones_beside[OF pos cs _ this] sum show ?thesis by simp
qed

lemma kickers_of_pair:
  fixes cs :: "nat list"
  assumes pos: "\<forall>c\<in>set cs. 1 \<le> c" and sum: "sum_list cs = 5"
    and pair: "length (filter (\<lambda>c. c = 2) cs) = 1" and three: "3 \<notin> set cs"
  shows "length (filter (\<lambda>c. c = 1) cs) = 3"
proof -
  from pair have "filter (\<lambda>c. c = 2) cs \<noteq> []" by auto
  then have "2 \<in> set cs" by (auto simp: filter_empty_conv)
  then obtain xs ys where cs: "cs = xs @ 2 # ys" by (auto dest: split_list)
  have s: "sum_list (xs @ ys) = 3" using sum unfolding cs by simp
  have f: "filter (\<lambda>c. c = 2) (xs @ ys) = []" using pair unfolding cs by simp
  have "\<forall>c\<in>set (xs @ ys). c \<noteq> 1 \<longrightarrow> sum_list (xs @ ys) < c"
  proof (intro ballI impI)
    fix c assume c: "c \<in> set (xs @ ys)" and n: "c \<noteq> 1"
    from c have "c \<in> set cs" unfolding cs by auto
    with pos three have "1 \<le> c" "c \<noteq> 3" by auto
    moreover have "c \<noteq> 2" using f c by (auto simp: filter_empty_conv)
    ultimately show "sum_list (xs @ ys) < c" using n unfolding s by simp
  qed
  from ones_beside[OF pos cs _ this] sum show ?thesis by simp
qed

lemma length_keys_with_count:
  "length (keys_with_count kcs n) = length (filter (\<lambda>c. c = n) (map snd kcs))"
  by (simp add: keys_with_count_def filter_map o_def)

lemma length_sorted_desc: "length (sorted_desc xs) = length xs"
  by (simp add: sorted_desc_def)

lemma tiebreakers_of_five:
  assumes len: "length cards = 5" and ev: "evaluate_five_cards cards = Inr (c, ts)"
  shows "length ts = tiebreaker_count c"
proof -
  let ?R = "map (\<lambda>c. rank_value (card_rank c)) cards"
  let ?cs = "map snd (counter ?R)"
  obtain b sr where s: "straight_check ?R = (b, sr)"
    by (cases "straight_check ?R") auto
  have sum: "sum_list ?cs = 5" using len by (simp add: counter_sum)
  have k3: "3 \<in> set ?cs \<Longrightarrow> 2 \<notin> set ?cs \<Longrightarrow> length (keys_with_count (counter ?R) 1) = 2"
    unfolding length_keys_with_count using kickers_of_three[OF counter_pos sum] by blast
  have k2: "length (keys_with_count (counter ?R) 2) = 1 \<Longrightarrow> 3 \<notin> set ?cs
      \<Longrightarrow> length (keys_with_count (counter ?R) 1) = 3"
    unfolding length_keys_with_count using kickers_of_pair[OF counter_pos sum] by blast
  show ?thesis
  proof (cases "3 \<in> set ?cs")
    case True
    then show ?thesis
      using ev k3 len unfolding evaluate_five_cards_def Let_def s
      by (auto simp: length_sorted_desc split: if_splits sum.splits)
  next
    case False
    then show ?thesis
      using ev k2 len unfolding evaluate_five_cards_def Let_def s
      by (auto simp: length_sorted_desc split: if_splits sum.splits)
  qed
qed

lemma combinations_nonempty: "k \<le> length xs \<Longrightarrow> combinations xs k \<noteq> []"
  by (induction xs k rule: combinations.induct) auto

lemma best_of_none: "best_of combos best = Inr None \<Longrightarrow> combos = [] \<and> best = None"
proof (induction combos arbitrary: best)
  case Nil
  then show ?case by simp
next
  case (Cons combo combos)
  then show ?case by (fastforce split: sum.splits option.splits if_splits)
qed

lemma evaluate_hand_finds_a_hand:
  "5 \<le> length cards \<Longrightarrow> best_of (combinations cards 5) None \<noteq> Inr None"
  using combinations_nonempty[of 5 cards] best_of_none[of "combinations cards 5" None] by blast

lemma length_combinations: "combo \<in> set (combinations xs k) \<Longrightarrow> length combo = k"
  by (induction xs k arbitrary: combo rule: combinations.induct) auto

lemma best_of_source:
  "best_of combos best = Inr (Some ev) \<Longrightarrow>
   best = Some ev \<or> (\<exists>combo\<in>set combos. evaluate_five_cards combo = Inr ev)"
proof (induction combos arbitrary: best)
  case Nil
  then show ?case by simp
next
  case (Cons combo combos)
  then show ?case
    by (fastforce split: sum.splits option.splits if_splits)
qed

lemma tiebreakers_of_hand:
  assumes "evaluate_hand cards = Inr (c, ts)"
  shows "length ts = tiebreaker_count c"
proof -
  from assms have "best_of (combinations cards 5) None = Inr (Some (c, ts))"
    by (auto simp: evaluate_hand_def split: if_splits sum.splits option.splits)
  from best_of_source[OF this] obtain combo where
    m: "combo \<in> set (combinations cards 5)" and e: "evaluate_five_cards combo = Inr (c, ts)"
    by auto
  from m have "length combo = 5" by (rule length_combinations)
  then show ?thesis using e by (rule tiebreakers_of_five)
qed

lemma evaluations_same_shape:
  assumes "evaluate_hand cards1 = Inr x" and "evaluate_hand cards2 = Inr y"
  shows "same_shape x y"
  using tiebreakers_of_hand[of cards1 "fst x" "snd x"] tiebreakers_of_hand[of cards2 "fst y" "snd y"]
    assms
  by (simp add: same_shape_def)

section \<open>The comparator\<close>

lemma compare_tiebreakers_neg: "compare_tiebreakers a b = - compare_tiebreakers b a"
  by (induction a b rule: compare_tiebreakers.induct) auto

lemma compare_tiebreakers_refl: "compare_tiebreakers a a = 0"
  by (induction a) auto

lemma compare_tiebreakers_eq:
  "length a = length b \<Longrightarrow> compare_tiebreakers a b = 0 \<Longrightarrow> a = b"
  by (induction a b rule: compare_tiebreakers.induct) (auto split: if_splits)

lemma compare_tiebreakers_trans:
  "length a = length b \<Longrightarrow> length b = length c \<Longrightarrow> compare_tiebreakers a b \<ge> 0
   \<Longrightarrow> compare_tiebreakers b c \<ge> 0 \<Longrightarrow> compare_tiebreakers a c \<ge> 0"
proof (induction a arbitrary: b c)
  case Nil
  then show ?case by simp
next
  case (Cons t1 ts1)
  from Cons.prems(1) obtain t2 ts2 where b: "b = t2 # ts2" by (cases b) auto
  from Cons.prems(2) b obtain t3 ts3 where c: "c = t3 # ts3" by (cases c) auto
  have l: "length ts1 = length ts2" "length ts2 = length ts3"
    using Cons.prems(1,2) b c by simp_all
  have ab: "t2 \<le> t1" using Cons.prems(3) unfolding b by (simp split: if_splits)
  have bc: "t3 \<le> t2" using Cons.prems(4) unfolding b c by (simp split: if_splits)
  show ?case
  proof (cases "t3 < t1")
    case True
    then show ?thesis unfolding c by simp
  next
    case False
    with ab bc have e: "t1 = t2" "t2 = t3" by simp_all
    have "0 \<le> compare_tiebreakers ts1 ts2" using Cons.prems(3) unfolding b e by simp
    moreover have "0 \<le> compare_tiebreakers ts2 ts3"
      using Cons.prems(4) unfolding b c e by simp
    ultimately have "0 \<le> compare_tiebreakers ts1 ts3" using Cons.IH l by blast
    then show ?thesis unfolding c e by simp
  qed
qed

lemma hand_rank_value_inj: "hand_rank_value a = hand_rank_value b \<Longrightarrow> a = b"
  by (cases a; cases b) simp_all

lemma compare_hands_refl: "compare_hands x x = 0"
  by (cases x) (simp add: compare_hands_def compare_tiebreakers_refl)

lemma compare_hands_neg: "compare_hands x y = - compare_hands y x"
  using compare_tiebreakers_neg[of "snd x" "snd y"]
  by (cases x; cases y) (simp add: compare_hands_def)

lemma compare_hands_eq: "same_shape x y \<Longrightarrow> compare_hands x y = 0 \<Longrightarrow> x = y"
proof -
  assume s: "same_shape x y" and c: "compare_hands x y = 0"
  obtain r1 t1 r2 t2 where x: "x = (r1, t1)" and y: "y = (r2, t2)"
    by (cases x; cases y) auto
  from c have v: "hand_rank_value r1 = hand_rank_value r2" and t: "compare_tiebreakers t1 t2 = 0"
    unfolding x y by (simp_all add: compare_hands_def split: if_splits)
  from v have r: "r1 = r2" by (rule hand_rank_value_inj)
  with s have "length t1 = length t2" unfolding x y by (simp add: same_shape_def)
  with t have "t1 = t2" by (rule compare_tiebreakers_eq[rotated])
  with r show ?thesis unfolding x y by simp
qed

lemma compare_hands_trans:
  assumes "same_shape x y" and "same_shape y z"
    and "compare_hands x y \<ge> 0" and "compare_hands y z \<ge> 0"
  shows "compare_hands x z \<ge> 0"
proof -
  obtain r1 t1 r2 t2 r3 t3 where x: "x = (r1, t1)" and y: "y = (r2, t2)" and z: "z = (r3, t3)"
    by (cases x; cases y; cases z) auto
  have xy: "hand_rank_value r2 \<le> hand_rank_value r1"
    using assms(3) unfolding x y by (simp add: compare_hands_def split: if_splits)
  have yz: "hand_rank_value r3 \<le> hand_rank_value r2"
    using assms(4) unfolding y z by (simp add: compare_hands_def split: if_splits)
  show ?thesis
  proof (cases "hand_rank_value r3 < hand_rank_value r1")
    case True
    then show ?thesis unfolding x z by (simp add: compare_hands_def)
  next
    case False
    with xy yz have v: "hand_rank_value r1 = hand_rank_value r2"
      "hand_rank_value r2 = hand_rank_value r3" by simp_all
    then have r: "r1 = r2" "r2 = r3" by (simp_all add: hand_rank_value_inj)
    have l: "length t1 = length t2" "length t2 = length t3"
      using assms(1,2) r unfolding x y z by (simp_all add: same_shape_def)
    have "0 \<le> compare_tiebreakers t1 t2"
      using assms(3) v unfolding x y by (simp add: compare_hands_def)
    moreover have "0 \<le> compare_tiebreakers t2 t3"
      using assms(4) v unfolding y z by (simp add: compare_hands_def)
    ultimately have "0 \<le> compare_tiebreakers t1 t3"
      using l compare_tiebreakers_trans by blast
    then show ?thesis using v unfolding x z by (simp add: compare_hands_def)
  qed
qed

text \<open>
  Claim C9, as the code has it. The comparator is reflexive, and any two evaluations are
  comparable (it is antisymmetric in its sign). On evaluations that have tiebreaker lists
  of the same length whenever their categories agree, equal under the comparator means
  equal, and the comparator is transitive. Any two results of \<open>evaluate_hand\<close> are of
  that kind.
\<close>

theorem compare_hands_total_order:
  "compare_hands x x = 0
   \<and> compare_hands x y = - compare_hands y x
   \<and> (compare_hands x y \<ge> 0 \<or> compare_hands y x \<ge> 0)
   \<and> (same_shape x y \<longrightarrow> compare_hands x y = 0 \<longrightarrow> x = y)
   \<and> (same_shape x y \<longrightarrow> same_shape y z \<longrightarrow> compare_hands x y \<ge> 0
        \<longrightarrow> compare_hands y z \<ge> 0 \<longrightarrow> compare_hands x z \<ge> 0)
   \<and> (evaluate_hand cards1 = Inr x \<longrightarrow> evaluate_hand cards2 = Inr y \<longrightarrow> same_shape x y)"
proof -
  have "compare_hands x y \<ge> 0 \<or> compare_hands y x \<ge> 0"
    using compare_hands_neg[of x y] by linarith
  then show ?thesis
    using compare_hands_refl[of x] compare_hands_neg[of x y] compare_hands_eq[of x y]
      compare_hands_trans[of x y z] evaluations_same_shape[of cards1 x cards2 y]
    by blast
qed

theorem compare_hands_total_order_witness:
  "evaluate_hand pair_of_nines = Inr (PAIR, [9, 14, 7, 3])
   \<and> evaluate_hand pair_of_fives = Inr (PAIR, [5, 13, 7, 3])
   \<and> evaluate_hand ace_high = Inr (HIGH_CARD, [14, 11, 8, 7, 3])
   \<and> same_shape (PAIR, [9, 14, 7, 3]) (PAIR, [5, 13, 7, 3])
   \<and> same_shape (PAIR, [5, 13, 7, 3]) (HIGH_CARD, [14, 11, 8, 7, 3])
   \<and> compare_hands (PAIR, [9, 14, 7, 3]) (PAIR, [5, 13, 7, 3]) \<ge> 0
   \<and> compare_hands (PAIR, [5, 13, 7, 3]) (HIGH_CARD, [14, 11, 8, 7, 3]) \<ge> 0
   \<and> compare_hands (PAIR, [9, 14, 7, 3]) (HIGH_CARD, [14, 11, 8, 7, 3]) \<ge> 0
   \<and> compare_hands (PAIR, [5, 13, 7, 3]) (PAIR, [5, 13, 7, 3]) = 0"
proof -
  have e: "evaluate_hand pair_of_nines = Inr (PAIR, [9, 14, 7, 3])"
    "evaluate_hand pair_of_fives = Inr (PAIR, [5, 13, 7, 3])"
    "evaluate_hand ace_high = Inr (HIGH_CARD, [14, 11, 8, 7, 3])"
    by code_simp+
  have c: "compare_hands (PAIR, [9, 14, 7, 3]) (PAIR, [5, 13, 7, 3]) \<ge> 0"
    "compare_hands (PAIR, [5, 13, 7, 3]) (HIGH_CARD, [14, 11, 8, 7, 3]) \<ge> 0"
    by (simp_all add: compare_hands_def)
  have s: "same_shape (PAIR, [9, 14, 7, 3]) (PAIR, [5, 13, 7, 3])"
    using compare_hands_total_order[of "(PAIR, [9, 14, 7, 3])" "(PAIR, [5, 13, 7, 3])"
        "(HIGH_CARD, [14, 11, 8, 7, 3])" pair_of_nines pair_of_fives] e
    by blast
  have t: "same_shape (PAIR, [5, 13, 7, 3]) (HIGH_CARD, [14, 11, 8, 7, 3])"
    using compare_hands_total_order[of "(PAIR, [5, 13, 7, 3])" "(HIGH_CARD, [14, 11, 8, 7, 3])"
        "(HIGH_CARD, [14, 11, 8, 7, 3])" pair_of_fives ace_high] e
    by blast
  have "compare_hands (PAIR, [9, 14, 7, 3]) (HIGH_CARD, [14, 11, 8, 7, 3]) \<ge> 0"
    using compare_hands_total_order[of "(PAIR, [9, 14, 7, 3])" "(PAIR, [5, 13, 7, 3])"
        "(HIGH_CARD, [14, 11, 8, 7, 3])" pair_of_nines pair_of_fives] s t c
    by blast
  moreover have "compare_hands (PAIR, [5, 13, 7, 3]) (PAIR, [5, 13, 7, 3]) = 0"
    using compare_hands_total_order[of "(PAIR, [5, 13, 7, 3])" "(PAIR, [5, 13, 7, 3])"
        "(PAIR, [5, 13, 7, 3])" pair_of_fives pair_of_fives]
    by blast
  ultimately show ?thesis using e s t c by simp
qed

text \<open>Claim C9 as stated fails: the loop over the zipped lists never looks behind the
  shorter list, so two different evaluations compare as equal.\<close>

theorem compare_hands_not_antisymmetric:
  "compare_hands (PAIR, [5]) (PAIR, [5, 3]) = 0 \<and> (PAIR, [5]) \<noteq> (PAIR, [5, 3::int])"
  by (simp add: compare_hands_def)

section \<open>Facts about the engine\<close>

text \<open>The ranking has one entry for each hand it is given.\<close>

lemma length_evaluate_all:
  "evaluate_all players_cards community i = Inr evs \<Longrightarrow> length evs = length players_cards"
  by (induction players_cards arbitrary: i evs) (auto split: sum.splits prod.splits)

lemma length_insert_desc: "length (insert_desc x evs) = Suc (length evs)"
  by (induction evs) auto

lemma length_sort_desc: "length (sort_desc evs) = length evs"
  by (induction evs) (simp_all add: sort_desc_def length_insert_desc)

lemma length_group_ties: "length (group_ties evs) = length evs"
proof (induction evs rule: group_ties.induct)
  case 1
  then show ?case by simp
next
  case (2 ev evs)
  have "length (takeWhile (\<lambda>x. snd x = snd ev) evs) + length (dropWhile (\<lambda>x. snd x = snd ev) evs)
          = length evs"
    by (metis length_append takeWhile_dropWhile_id)
  with 2 show ?case by simp
qed

lemma compare_player_hands_length:
  "compare_player_hands players_cards community = Inr ranked_players
   \<Longrightarrow> length ranked_players = length players_cards"
  by (auto simp: compare_player_hands_def length_group_ties length_sort_desc
      dest: length_evaluate_all split: sum.splits)

text \<open>When the round-completion check runs with one active player left, the player is
  credited the pot and the hand is finished, with no card dealt and no hand evaluated.\<close>

lemma single_active_player_wins:
  assumes "get_active_players g = [winner]"
  shows "check_betting_round_complete g
           = Inr ((player_add_chips g winner (pot g))\<lparr>winners := [(winner, pot g)], state := FINISHED\<rparr>)"
  using assms by (simp add: check_betting_round_complete_def Let_def player_add_chips_def)

section \<open>Runs of the engine\<close>

text \<open>
  Claim C1 against the code. \<open>_calculate_side_pots\<close> sorts the distinct committed amounts
  in descending order and takes the difference to the previous, larger amount, so that
  only the first tier is positive: for three all-in players who committed 200, 100 and 50
  it computes the single layer (200, the 200-committer) instead of (150, all three) and
  (100, the two larger committers). The same happens in a hand played from \<open>start_hand\<close>.
\<close>

theorem side_pots_of_three_all_ins:
  "map total_bet_this_round (players side_pot_scenario) = [200, 100, 50]
   \<and> get_active_players side_pot_scenario = [0, 1, 2]
   \<and> side_pots (calculate_side_pots side_pot_scenario) = [(200, [0])]
   \<and> all_accepted (play_hand short_stacks reset_deck all_in_on_river)
   \<and> map_option (map total_bet_this_round \<circ> players)
        (final_table (play_hand short_stacks reset_deck all_in_on_river)) = Some [200, 100, 50]
   \<and> map_option (map is_all_in \<circ> players)
        (final_table (play_hand short_stacks reset_deck all_in_on_river)) = Some [True, True, True]
   \<and> map_option side_pots
        (final_table (play_hand short_stacks reset_deck all_in_on_river)) = Some [(200, [0])]"
  by code_simp

text \<open>
  Claim C2 against the code. Heads-up with 2000 chips on the table: up to the last action
  the stacks and the pot add up to 2000. The call on the river ends the hand at the
  showdown, which pays the winner the layer of the river bets only (20 of the 40 in the
  pot): the stacks then add up to 1980, and to 2020 together with the pot field.
\<close>

theorem chips_lost_at_showdown:
  "total_chips heads_up = 2000
   \<and> all_accepted (play_hand heads_up reset_deck river_bet_called)
   \<and> map_option (\<lambda>g. total_chips g + pot g)
        (final_table (play_hand heads_up reset_deck (butlast river_bet_called))) = Some 2000
   \<and> map_option state
        (final_table (play_hand heads_up reset_deck river_bet_called)) = Some FINISHED
   \<and> map_option total_chips
        (final_table (play_hand heads_up reset_deck river_bet_called)) = Some 1980
   \<and> map_option pot
        (final_table (play_hand heads_up reset_deck river_bet_called)) = Some 40
   \<and> map_option side_pots
        (final_table (play_hand heads_up reset_deck river_bet_called)) = Some [(20, [0, 1])]
   \<and> map_option winners
        (final_table (play_hand heads_up reset_deck river_bet_called)) = Some [(0, 20)]"
  by code_simp

text \<open>
  Claim C3 against the code. Both players of the heads-up hand play the board, a king-high
  flush, so their evaluations are equal. Checked down, there is no side pot and the whole
  pot of 20 goes to seat 0; with a bet and a call on the river the layer of 20 goes to
  seat 0 as well. In neither case the tied seat 1 is credited.
\<close>

theorem tie_is_not_split:
  "all_accepted (play_hand heads_up reset_deck checked_down)
   \<and> map_option (\<lambda>g. evaluate_all (map hand (players g)) (community_cards g) 0)
        (final_table (play_hand heads_up reset_deck checked_down))
      = Some (Inr [(0, FLUSH, [13, 11, 9, 8, 7]), (1, FLUSH, [13, 11, 9, 8, 7])])
   \<and> map_option side_pots
        (final_table (play_hand heads_up reset_deck checked_down)) = Some []
   \<and> map_option pot
        (final_table (play_hand heads_up reset_deck checked_down)) = Some 20
   \<and> map_option winners
        (final_table (play_hand heads_up reset_deck checked_down)) = Some [(0, 20)]
   \<and> map_option (map chips \<circ> players)
        (final_table (play_hand heads_up reset_deck checked_down)) = Some [1010, 990]
   \<and> map_option side_pots
        (final_table (play_hand heads_up reset_deck river_bet_called)) = Some [(20, [0, 1])]
   \<and> map_option winners
        (final_table (play_hand heads_up reset_deck river_bet_called)) = Some [(0, 20)]
   \<and> map_option (map chips \<circ> players)
        (final_table (play_hand heads_up reset_deck river_bet_called)) = Some [1000, 980]"
  by code_simp

text \<open>
  Claim C4 against the code. After the raise the table bet is 30 and the small blind has
  committed 5 and holds 30. Her all-in brings her commitment to 35, above the table bet,
  but the test compares the 30 chips just moved with the table bet: the table bet stays
  at 30 and the acted-set keeps the raiser.
\<close>

theorem all_in_over_the_table_bet:
  "all_accepted (play_hand short_carol reset_deck raise_then_all_in)
   \<and> map_option (\<lambda>g. (game_current_bet g, current_bet (players g ! 2), chips (players g ! 2)))
        (final_table (play_hand short_carol reset_deck (butlast raise_then_all_in)))
      = Some (30, 5, 30)
   \<and> map_option (\<lambda>g. current_bet (players g ! 2))
        (final_table (play_hand short_carol reset_deck raise_then_all_in)) = Some 35
   \<and> map_option game_current_bet
        (final_table (play_hand short_carol reset_deck raise_then_all_in)) = Some 30
   \<and> map_option acted_this_round
        (final_table (play_hand short_carol reset_deck raise_then_all_in)) = Some {''p2'', ''p3''}
   \<and> map_option betting_round
        (final_table (play_hand short_carol reset_deck raise_then_all_in)) = Some PRE_FLOP
   \<and> map_option state
        (final_table (play_hand short_carol reset_deck raise_then_all_in)) = Some IN_PROGRESS"
  by code_simp

text \<open>
  Claim C6 against the code. On the flop of the heads-up hand the first player to act
  folds. One active player is left, but he is not in the acted-set, so the round is not
  complete and \<open>_check_betting_round_complete\<close> is not reached: the hand stays in progress
  and the pot of 20 is not paid.
\<close>

theorem fold_leaves_hand_in_progress:
  "all_accepted (play_hand heads_up reset_deck fold_on_flop)
   \<and> map_option get_active_players
        (final_table (play_hand heads_up reset_deck fold_on_flop)) = Some [1]
   \<and> map_option state
        (final_table (play_hand heads_up reset_deck fold_on_flop)) = Some IN_PROGRESS
   \<and> map_option pot
        (final_table (play_hand heads_up reset_deck fold_on_flop)) = Some 20
   \<and> map_option (map chips \<circ> players)
        (final_table (play_hand heads_up reset_deck fold_on_flop)) = Some [990, 990]
   \<and> map_option winners
        (final_table (play_hand heads_up reset_deck fold_on_flop)) = Some []"
  by code_simp

section \<open>The straight test of the evaluator\<close>

lemma counter_add_keys:
  "map fst (counter_add x kcs) = (if x \<in> set (map fst kcs) then map fst kcs else map fst kcs @ [x])"
  by (induction kcs) (force split: if_splits)+

lemma counter_foldl_keys:
  "distinct (map fst acc) \<Longrightarrow>
   distinct (map fst (foldl (\<lambda>acc x. counter_add x acc) acc xs)) \<and>
   set (map fst (foldl (\<lambda>acc x. counter_add x acc) acc xs)) = set (map fst acc) \<union> set xs"
proof (induction xs arbitrary: acc)
  case Nil
  then show ?case by simp
next
  case (Cons x xs)
  have d: "distinct (map fst (counter_add x acc))"
    using Cons.prems by (simp add: counter_add_keys)
  have s: "set (map fst (counter_add x acc)) = insert x (set (map fst acc))"
    by (auto simp: counter_add_keys)
  from Cons.IH[OF d] s show ?case by simp
qed

lemma length_counter: "length (counter xs) = card (set xs)"
proof -
  have d: "distinct (map fst (counter xs))" and s: "set (map fst (counter xs)) = set xs"
    using counter_foldl_keys[of "[]" xs] by (simp_all add: counter_def)
  have "length (counter xs) = length (map fst (counter xs))" by simp
  also have "\<dots> = card (set (map fst (counter xs)))" using d by (rule distinct_card[symmetric])
  also have "\<dots> = card (set xs)" using s by simp
  finally show ?thesis .
qed

lemma hd_sorted_Min: "sorted xs \<Longrightarrow> xs \<noteq> [] \<Longrightarrow> hd xs = Min (set xs)"
  for xs :: "int list"
  by (cases xs) (auto intro!: Min_eqI[symmetric])

lemma last_sorted_Max: "sorted xs \<Longrightarrow> xs \<noteq> [] \<Longrightarrow> last xs = Max (set xs)"
  for xs :: "int list"
proof (induction xs)
  case Nil
  then show ?case by simp
next
  case (Cons x xs)
  show ?case
  proof (cases "xs = []")
    case True
    then show ?thesis by simp
  next
    case False
    from Cons False have l: "last xs = Max (set xs)" by simp
    have "x \<le> last xs" using Cons.prems False by simp
    with l have "x \<le> Max (set xs)" by simp
    with l show ?thesis using False by (simp add: max_def)
  qed
qed

lemma sorted_ranks_wheel:
  fixes ranks :: "int list"
  shows "sort (remdups ranks) = [2, 3, 4, 5, 14] \<longleftrightarrow> set ranks = {2, 3, 4, 5, 14}"
proof
  assume "sort (remdups ranks) = [2, 3, 4, 5, 14]"
  then have "set (sort (remdups ranks)) = set [2, 3, 4, 5, 14]" by simp
  then show "set ranks = {2, 3, 4, 5, 14}" by simp
next
  assume a: "set ranks = {2, 3, 4, 5, 14}"
  show "sort (remdups ranks) = [2, 3, 4, 5, 14]"
  proof (rule sorted_distinct_set_unique)
    show "set (sort (remdups ranks)) = set [2, 3, 4, 5, 14::int]" using a by simp
  qed simp_all
qed

lemma counter_add_fresh: "x \<notin> fst ` set kcs \<Longrightarrow> counter_add x kcs = kcs @ [(x, 1)]"
  by (induction kcs) auto

lemma counter_foldl_distinct:
  "distinct (map fst acc @ xs) \<Longrightarrow>
   foldl (\<lambda>acc x. counter_add x acc) acc xs = acc @ map (\<lambda>x. (x, 1)) xs"
proof (induction xs arbitrary: acc)
  case Nil
  then show ?case by simp
next
  case (Cons x xs)
  have "x \<notin> fst ` set acc" using Cons.prems by auto
  then have a: "counter_add x acc = acc @ [(x, 1)]" by (rule counter_add_fresh)
  have "distinct (map fst (acc @ [(x, 1)]) @ xs)" using Cons.prems by auto
  from Cons.IH[OF this] show ?case by (simp add: a)
qed

lemma counter_distinct: "distinct xs \<Longrightarrow> counter xs = map (\<lambda>x. (x, 1)) xs"
  using counter_foldl_distinct[of "[]" xs] by (simp add: counter_def)

lemma counter_distinct_values: "distinct xs \<Longrightarrow> n \<noteq> 1 \<Longrightarrow> (n \<in> set (map snd (counter xs))) = False"
  by (auto simp: counter_distinct)

lemma counter_distinct_keys: "distinct xs \<Longrightarrow> n \<noteq> 1 \<Longrightarrow> keys_with_count (counter xs) n = []"
  by (simp add: counter_distinct keys_with_count_def o_def)

lemma combinations_too_many: "length xs < k \<Longrightarrow> combinations xs k = []"
  by (induction xs k rule: combinations.induct) auto

lemma combinations_all: "combinations xs (length xs) = [xs]"
  by (induction xs) (auto simp: combinations_too_many)

lemma evaluate_hand_five: "length cards = 5 \<Longrightarrow> evaluate_hand cards = evaluate_five_cards cards"
  using combinations_all[of cards]
  by (simp add: evaluate_hand_def split: sum.splits)

lemma evaluate_five_distinct:
  assumes "distinct (ranks_of cards)"
  shows "evaluate_five_cards cards =
     (let is_flush = (card (set (map card_suit cards)) = 1);
          is_straight = fst (straight_check (ranks_of cards));
          sorted_ranks = snd (straight_check (ranks_of cards))
      in if is_flush \<and> is_straight \<and> last sorted_ranks = 14 \<and> hd sorted_ranks = 10
           then Inr (ROYAL_FLUSH, [14])
         else if is_flush \<and> is_straight then Inr (STRAIGHT_FLUSH, [last sorted_ranks])
         else if is_flush then Inr (FLUSH, sorted_desc (ranks_of cards))
         else if is_straight then Inr (STRAIGHT, [last sorted_ranks])
         else Inr (HIGH_CARD, sorted_desc (ranks_of cards)))"
proof -
  let ?R = "map (\<lambda>c. rank_value (card_rank c)) cards"
  have d: "distinct ?R" using assms by (simp add: ranks_of_def)
  obtain b sr where s: "straight_check ?R = (b, sr)"
    by (cases "straight_check ?R") auto
  have v: "(4 \<in> set (map snd (counter ?R))) = False" "(3 \<in> set (map snd (counter ?R))) = False"
    "(2 \<in> set (map snd (counter ?R))) = False"
    using d by (simp_all only: counter_distinct_values)
  have k: "keys_with_count (counter ?R) 2 = []"
    using d by (simp only: counter_distinct_keys)
  show ?thesis
    unfolding evaluate_five_cards_def ranks_of_def Let_def s v k
    by (simp add: length_counter)
qed

lemma evaluate_five_not_straight:
  assumes "\<not> fst (straight_check (ranks_of cards))"
  shows "evaluate_five_cards cards \<noteq> Inr (STRAIGHT, ts) \<and>
         evaluate_five_cards cards \<noteq> Inr (STRAIGHT_FLUSH, ts) \<and>
         evaluate_five_cards cards \<noteq> Inr (ROYAL_FLUSH, ts)"
proof -
  obtain sr where s: "straight_check (map (\<lambda>c. rank_value (card_rank c)) cards) = (False, sr)"
    using assms unfolding ranks_of_def
    by (cases "straight_check (map (\<lambda>c. rank_value (card_rank c)) cards)") auto
  show ?thesis
    unfolding evaluate_five_cards_def Let_def s
    by (simp split: sum.splits)
qed

lemma straight_check_iff:
  assumes "length ranks = 5"
  shows "fst (straight_check ranks) \<longleftrightarrow>
         distinct ranks \<and> (Max (set ranks) - Min (set ranks) = 4 \<or> set ranks = {2, 3, 4, 5, 14})"
proof (cases "distinct ranks")
  case False
  then have "length (remdups ranks) \<noteq> 5" using assms length_remdups_eq[of ranks] by simp
  then show ?thesis using False by (simp add: straight_check_def Let_def)
next
  case True
  then have l: "length (sort (remdups ranks)) = 5" using assms by (simp add: distinct_remdups_id)
  have ne: "sort (remdups ranks) \<noteq> []"
  proof
    assume "sort (remdups ranks) = []"
    then have "length (sort (remdups ranks)) = 0" by (simp only: list.size)
    with l show False by simp
  qed
  have h: "hd (sort (remdups ranks)) = Min (set ranks)"
    using hd_sorted_Min[of "sort (remdups ranks)"] ne by simp
  have t: "last (sort (remdups ranks)) = Max (set ranks)"
    using last_sorted_Max[of "sort (remdups ranks)"] ne by simp
  show ?thesis
    using True l h t sorted_ranks_wheel[of ranks]
    by (simp add: straight_check_def Let_def)
qed

lemma wheel_evaluation:
  assumes len: "length cards = 5"
    and rs: "set (map card_rank cards) = {ACE, FIVE, FOUR, THREE, TWO}"
    and mixed: "\<exists>c\<in>set cards. \<exists>d\<in>set cards. card_suit c \<noteq> card_suit d"
  shows "evaluate_five_cards cards = Inr (STRAIGHT, [5])"
proof -
  have "set (ranks_of cards) = rank_value ` set (map card_rank cards)"
    by (auto simp: ranks_of_def)
  then have s: "set (ranks_of cards) = {2, 3, 4, 5, 14}"
    unfolding rs by auto
  have "card (set (ranks_of cards)) = length (ranks_of cards)"
    unfolding s using len by (simp add: ranks_of_def)
  then have d: "distinct (ranks_of cards)" by (rule card_distinct)
  have w: "sort (remdups (ranks_of cards)) = [2, 3, 4, 5, 14]"
    using s sorted_ranks_wheel[of "ranks_of cards"] by simp
  have sc: "straight_check (ranks_of cards) = (True, [1, 2, 3, 4, 5])"
    by (simp add: straight_check_def w)
  have nf: "card (set (map card_suit cards)) \<noteq> 1"
  proof
    assume "card (set (map card_suit cards)) = 1"
    then obtain x where "set (map card_suit cards) = {x}" by (auto simp: card_1_singleton_iff)
    then have "\<forall>c\<in>set cards. card_suit c = x" by auto
    with mixed show False by auto
  qed
  show ?thesis
    using nf by (simp add: evaluate_five_distinct[OF d] sc)
qed

lemma straight_categories:
  assumes len: "length cards = 5"
  shows "(\<exists>ts. evaluate_five_cards cards = Inr (STRAIGHT, ts)
              \<or> evaluate_five_cards cards = Inr (STRAIGHT_FLUSH, ts)
              \<or> evaluate_five_cards cards = Inr (ROYAL_FLUSH, ts))
         \<longleftrightarrow> fst (straight_check (ranks_of cards))"
proof
  assume "\<exists>ts. evaluate_five_cards cards = Inr (STRAIGHT, ts)
              \<or> evaluate_five_cards cards = Inr (STRAIGHT_FLUSH, ts)
              \<or> evaluate_five_cards cards = Inr (ROYAL_FLUSH, ts)"
  then show "fst (straight_check (ranks_of cards))"
    using evaluate_five_not_straight[of cards] by blast
next
  assume st: "fst (straight_check (ranks_of cards))"
  have "length (ranks_of cards) = 5" using len by (simp add: ranks_of_def)
  with st have d: "distinct (ranks_of cards)" using straight_check_iff by blast
  show "\<exists>ts. evaluate_five_cards cards = Inr (STRAIGHT, ts)
              \<or> evaluate_five_cards cards = Inr (STRAIGHT_FLUSH, ts)
              \<or> evaluate_five_cards cards = Inr (ROYAL_FLUSH, ts)"
    using st by (simp add: evaluate_five_distinct[OF d] Let_def)
qed

text \<open>
  Claim C8. For five cards, a hand with the ranks A, 5, 4, 3, 2 in mixed suits evaluates
  to a straight with tiebreaker \<open>[5]\<close>; and the evaluation is a straight (plain, flush or
  royal) exactly when the five ranks are distinct and span exactly 4, or are the ranks of
  the wheel.
\<close>

theorem wheel_and_straight:
  assumes "length cards = 5"
  shows "(set (map card_rank cards) = {ACE, FIVE, FOUR, THREE, TWO}
            \<and> (\<exists>c\<in>set cards. \<exists>d\<in>set cards. card_suit c \<noteq> card_suit d)
          \<longrightarrow> evaluate_hand cards = Inr (STRAIGHT, [5]))
       \<and> ((\<exists>ts. evaluate_hand cards = Inr (STRAIGHT, ts)
              \<or> evaluate_hand cards = Inr (STRAIGHT_FLUSH, ts)
              \<or> evaluate_hand cards = Inr (ROYAL_FLUSH, ts))
            \<longleftrightarrow> distinct (ranks_of cards)
                \<and> (Max (set (ranks_of cards)) - Min (set (ranks_of cards)) = 4
                   \<or> set (ranks_of cards) = {2, 3, 4, 5, 14}))"
proof -
  have l: "length (ranks_of cards) = 5" using assms by (simp add: ranks_of_def)
  show ?thesis
    unfolding evaluate_hand_five[OF assms] straight_categories[OF assms]
      straight_check_iff[OF l]
    using wheel_evaluation[OF assms] by blast
qed

theorem wheel_and_straight_witness:
  "length wheel = 5 \<and> evaluate_hand wheel = Inr (STRAIGHT, [5])
   \<and> distinct (ranks_of wheel)"
proof -
  have l: "length wheel = 5" by (simp add: wheel_def)
  have r: "set (map card_rank wheel) = {ACE, FIVE, FOUR, THREE, TWO}" by (simp add: wheel_def)
  have m: "\<exists>c\<in>set wheel. \<exists>d\<in>set wheel. card_suit c \<noteq> card_suit d" by (auto simp: wheel_def)
  have e: "evaluate_hand wheel = Inr (STRAIGHT, [5])"
    using wheel_and_straight[OF l] r m by blast
  then show ?thesis using wheel_and_straight[OF l] l by blast
qed

section \<open>The snapshot given to a player\<close>

lemma same_but_hands_nth:
  assumes "same_but_hands g g'"
  shows "length (players g') = length (players g)"
    and "i < length (players g) \<Longrightarrow> (players g' ! i)\<lparr>hand := []\<rparr> = (players g ! i)\<lparr>hand := []\<rparr>"
proof -
  from assms have m: "map (\<lambda>p. p\<lparr>hand := []\<rparr>) (players g') = map (\<lambda>p. p\<lparr>hand := []\<rparr>) (players g)"
    by (simp add: same_but_hands_def)
  then show l: "length (players g') = length (players g)" by (rule map_eq_imp_length_eq)
  assume i: "i < length (players g)"
  have "map (\<lambda>p. p\<lparr>hand := []\<rparr>) (players g') ! i = map (\<lambda>p. p\<lparr>hand := []\<rparr>) (players g) ! i"
    using m by simp
  then show "(players g' ! i)\<lparr>hand := []\<rparr> = (players g ! i)\<lparr>hand := []\<rparr>"
    using i l by simp
qed

lemma hand_free_fields:
  assumes "p'\<lparr>hand := []\<rparr> = p\<lparr>hand := []\<rparr>"
  shows "name p' = name p" "chips p' = chips p" "current_bet p' = current_bet p"
    "is_active p' = is_active p" "is_all_in p' = is_all_in p" "is_sitting_out p' = is_sitting_out p"
    "player_id p' = player_id p" "total_bet_this_round p' = total_bet_this_round p"
proof -
  have "name (p'\<lparr>hand := []\<rparr>) = name (p\<lparr>hand := []\<rparr>)" using assms by simp
  then show "name p' = name p" by simp
  have "chips (p'\<lparr>hand := []\<rparr>) = chips (p\<lparr>hand := []\<rparr>)" using assms by simp
  then show "chips p' = chips p" by simp
  have "current_bet (p'\<lparr>hand := []\<rparr>) = current_bet (p\<lparr>hand := []\<rparr>)" using assms by simp
  then show "current_bet p' = current_bet p" by simp
  have "is_active (p'\<lparr>hand := []\<rparr>) = is_active (p\<lparr>hand := []\<rparr>)" using assms by simp
  then show "is_active p' = is_active p" by simp
  have "is_all_in (p'\<lparr>hand := []\<rparr>) = is_all_in (p\<lparr>hand := []\<rparr>)" using assms by simp
  then show "is_all_in p' = is_all_in p" by simp
  have "is_sitting_out (p'\<lparr>hand := []\<rparr>) = is_sitting_out (p\<lparr>hand := []\<rparr>)" using assms by simp
  then show "is_sitting_out p' = is_sitting_out p" by simp
  have "player_id (p'\<lparr>hand := []\<rparr>) = player_id (p\<lparr>hand := []\<rparr>)" using assms by simp
  then show "player_id p' = player_id p" by simp
  have "total_bet_this_round (p'\<lparr>hand := []\<rparr>) = total_bet_this_round (p\<lparr>hand := []\<rparr>)" using assms by simp
  then show "total_bet_this_round p' = total_bet_this_round p" by simp
qed

lemma same_but_hands_fields:
  assumes "same_but_hands g g'"
  shows "game_id g' = game_id g" "betting_round g' = betting_round g" "pot g' = pot g"
    "game_current_bet g' = game_current_bet g" "big_blind g' = big_blind g"
    "community_cards g' = community_cards g" "current_player_index g' = current_player_index g"
proof -
  from assms have e: "g'\<lparr>players := []\<rparr> = g\<lparr>players := []\<rparr>" by (simp add: same_but_hands_def)
  have "game_id (g'\<lparr>players := []\<rparr>) = game_id (g\<lparr>players := []\<rparr>)" using e by simp
  then show "game_id g' = game_id g" by simp
  have "betting_round (g'\<lparr>players := []\<rparr>) = betting_round (g\<lparr>players := []\<rparr>)" using e by simp
  then show "betting_round g' = betting_round g" by simp
  have "pot (g'\<lparr>players := []\<rparr>) = pot (g\<lparr>players := []\<rparr>)" using e by simp
  then show "pot g' = pot g" by simp
  have "game_current_bet (g'\<lparr>players := []\<rparr>) = game_current_bet (g\<lparr>players := []\<rparr>)" using e by simp
  then show "game_current_bet g' = game_current_bet g" by simp
  have "big_blind (g'\<lparr>players := []\<rparr>) = big_blind (g\<lparr>players := []\<rparr>)" using e by simp
  then show "big_blind g' = big_blind g" by simp
  have "community_cards (g'\<lparr>players := []\<rparr>) = community_cards (g\<lparr>players := []\<rparr>)" using e by simp
  then show "community_cards g' = community_cards g" by simp
  have "current_player_index (g'\<lparr>players := []\<rparr>) = current_player_index (g\<lparr>players := []\<rparr>)" using e by simp
  then show "current_player_index g' = current_player_index g" by simp
qed

lemma same_but_hands_active:
  assumes "same_but_hands g g'"
  shows "get_active_players g' = get_active_players g"
  unfolding get_active_players_def same_but_hands_nth(1)[OF assms]
  by (rule filter_cong) (auto simp: hand_free_fields[OF same_but_hands_nth(2)[OF assms]])

lemma active_in_range: "i \<in> set (get_active_players g) \<Longrightarrow> i < length (players g)"
  by (simp add: get_active_players_def)

lemma same_but_hands_eligible:
  assumes "same_but_hands g g'"
  shows "get_eligible_players g' = get_eligible_players g"
  unfolding get_eligible_players_def same_but_hands_active[OF assms]
  by (rule filter_cong)
    (auto simp: can_act_def hand_free_fields[OF same_but_hands_nth(2)[OF assms]]
      dest: active_in_range)

lemma same_but_hands_current:
  assumes "same_but_hands g g'"
  shows "get_current_player g' = get_current_player g"
  by (simp add: get_current_player_def Let_def same_but_hands_eligible[OF assms]
      same_but_hands_fields[OF assms])

lemma same_but_hands_views:
  assumes "same_but_hands g g'"
  shows "map view_of (players g') = map view_of (players g)"
proof (rule nth_equalityI)
  show "length (map view_of (players g')) = length (map view_of (players g))"
    using same_but_hands_nth(1)[OF assms] by simp
next
  fix i assume "i < length (map view_of (players g'))"
  then have i: "i < length (players g)" using same_but_hands_nth(1)[OF assms] by simp
  then show "map view_of (players g') ! i = map view_of (players g) ! i"
    using same_but_hands_nth(1)[OF assms]
    by (simp add: view_of_def hand_free_fields[OF same_but_hands_nth(2)[OF assms i]])
qed

text \<open>
  Claim C10. The snapshot for a seat carries the hole cards of that seat, and two tables
  that differ only in hole cards, and agree on the hole cards of the seat, give the seat
  the same snapshot: nothing of the other hands is in it.
\<close>

theorem snapshot_hides_other_hands:
  assumes "player < length (players g)"
    and "same_but_hands g g'"
    and "hand (players g' ! player) = hand (players g ! player)"
  shows "get_game_state_for_player g' player = get_game_state_for_player g player
       \<and> snap_hand (get_game_state_for_player g player) = hand (players g ! player)"
  using assms(3)
  by (simp add: get_game_state_for_player_def same_but_hands_fields[OF assms(2)]
      same_but_hands_current[OF assms(2)] same_but_hands_views[OF assms(2)]
      hand_free_fields[OF same_but_hands_nth(2)[OF assms(2) assms(1)]])

theorem snapshot_hides_other_hands_witness:
  "0 < length (players dealt_table) \<and> same_but_hands dealt_table dealt_table_other
   \<and> hand (players dealt_table_other ! 0) = hand (players dealt_table ! 0)
   \<and> hand (players dealt_table_other ! 1) \<noteq> hand (players dealt_table ! 1)
   \<and> get_game_state_for_player dealt_table_other 0 = get_game_state_for_player dealt_table 0
   \<and> snap_hand (get_game_state_for_player dealt_table 0) = [Card ACE SPADES, Card KING SPADES]"
proof -
  have l: "0 < length (players dealt_table)" by (simp add: dealt_table_def)
  have s: "same_but_hands dealt_table dealt_table_other"
    by (simp add: same_but_hands_def dealt_table_def dealt_table_other_def new_player_def)
  have h: "hand (players dealt_table_other ! 0) = hand (players dealt_table ! 0)"
    by (simp add: dealt_table_def dealt_table_other_def)
  have o: "hand (players dealt_table_other ! 1) \<noteq> hand (players dealt_table ! 1)"
    by (simp add: dealt_table_def dealt_table_other_def)
  have a: "hand (players dealt_table ! 0) = [Card ACE SPADES, Card KING SPADES]"
    by (simp add: dealt_table_def)
  show ?thesis using snapshot_hides_other_hands[OF l s h] l s h o a by simp
qed

section \<open>Rejected requests\<close>

lemma accept_succeeds: "accept g msg = Inr (r, g') \<Longrightarrow> succeeded r"
  by (auto simp: accept_def split: sum.splits)

lemma reject_unchanged: "reject g m = Inr (r, g') \<Longrightarrow> g' = g \<and> r = RTuple False m"
  by (simp add: reject_def)

lemma do_fold_rejection:
  "do_fold g player = Inr (r, g') \<Longrightarrow> \<not> succeeded r \<Longrightarrow> g' = g \<and> (\<exists>m. r = RTuple False m \<and> m \<noteq> [])"
  by (auto simp: do_fold_def Let_def dest: accept_succeeds)

lemma do_check_rejection:
  "do_check g player = Inr (r, g') \<Longrightarrow> \<not> succeeded r \<Longrightarrow> g' = g \<and> (\<exists>m. r = RTuple False m \<and> m \<noteq> [])"
  by (auto simp: do_check_def Let_def split: if_splits dest: accept_succeeds reject_unchanged)

lemma do_call_rejection:
  "do_call g player = Inr (r, g') \<Longrightarrow> \<not> succeeded r \<Longrightarrow> g' = g \<and> (\<exists>m. r = RTuple False m \<and> m \<noteq> [])"
  by (auto simp: do_call_def Let_def split: if_splits prod.splits dest: accept_succeeds reject_unchanged)

lemma do_bet_rejection:
  "do_bet g player amount = Inr (r, g') \<Longrightarrow> \<not> succeeded r \<Longrightarrow> g' = g \<and> (\<exists>m. r = RTuple False m \<and> m \<noteq> [])"
  by (auto simp: do_bet_def Let_def split: if_splits prod.splits dest: accept_succeeds reject_unchanged)

lemma do_raise_rejection:
  "do_raise g player amount = Inr (r, g') \<Longrightarrow> \<not> succeeded r \<Longrightarrow> g' = g \<and> (\<exists>m. r = RTuple False m \<and> m \<noteq> [])"
  by (auto simp: do_raise_def Let_def split: if_splits prod.splits dest: accept_succeeds reject_unchanged)

lemma do_all_in_rejection:
  "do_all_in g player = Inr (r, g') \<Longrightarrow> \<not> succeeded r \<Longrightarrow> g' = g \<and> (\<exists>m. r = RTuple False m \<and> m \<noteq> [])"
  by (auto simp: do_all_in_def Let_def split: if_splits prod.splits dest: accept_succeeds)

lemma process_action_rejection:
  assumes "process_action g player action amount = Inr (r, g')" and "\<not> succeeded r"
  shows "g' = g \<and> (\<exists>m. r = RTuple False m \<and> m \<noteq> [])"
  using assms do_fold_rejection[of g player r g'] do_check_rejection[of g player r g']
    do_call_rejection[of g player r g'] do_bet_rejection[of g player amount r g']
    do_raise_rejection[of g player amount r g'] do_all_in_rejection[of g player r g']
  by (auto simp: process_action_def reject_def split: if_splits)

lemma start_hand_rejection:
  assumes "start_hand g shuffled = Inr (r, g')" and "\<not> succeeded r"
  shows "g' = g \<and> r = RBool False \<and> length (hand_players g) < 2"
  using assms by (auto simp: start_hand_def Let_def split: if_splits sum.splits)

lemma process_action_rejects:
  "state g \<noteq> IN_PROGRESS \<Longrightarrow>
     process_action g player action amount = Inr (RTuple False ''Game is not in progress'', g)"
  "state g = IN_PROGRESS \<Longrightarrow> player \<notin> set (get_eligible_players g) \<Longrightarrow>
     process_action g player action amount = Inr (RTuple False ''Player cannot act'', g)"
  "state g = IN_PROGRESS \<Longrightarrow> player \<in> set (get_eligible_players g) \<Longrightarrow>
   get_current_player g \<noteq> Some player \<Longrightarrow>
     process_action g player action amount
       = Inr (RTuple False (''Not player'' @ [CHR 0x27] @ ''s turn''), g)"
  by (auto simp: process_action_def reject_def)

text \<open>The preconditions of the actions, for the player whose turn it is.\<close>

lemma action_precondition_rejects:
  assumes "state g = IN_PROGRESS" and "player \<in> set (get_eligible_players g)"
    and "get_current_player g = Some player"
  shows "game_current_bet g > current_bet (players g ! player) \<Longrightarrow>
       process_action g player CHECK amount
         = Inr (RTuple False ''Cannot check, must call or fold'', g)"
    and "game_current_bet g = current_bet (players g ! player) \<Longrightarrow>
       process_action g player CALL amount
         = Inr (RTuple False ''Nothing to call, check instead'', g)"
    and "game_current_bet g > 0 \<Longrightarrow>
       process_action g player BET amount
         = Inr (RTuple False ''Cannot bet, must call or raise'', g)"
    and "game_current_bet g \<le> 0 \<Longrightarrow> amount < big_blind g \<Longrightarrow>
       process_action g player BET amount
         = Inr (RTuple False (''Bet must be at least '' @ show_int (big_blind g)), g)"
    and "game_current_bet g \<le> 0 \<Longrightarrow> big_blind g \<le> amount \<Longrightarrow>
       amount > chips (players g ! player) \<Longrightarrow>
       process_action g player BET amount = Inr (RTuple False ''Insufficient chips'', g)"
    and "game_current_bet g \<noteq> current_bet (players g ! player) \<Longrightarrow> amount < big_blind g \<Longrightarrow>
       process_action g player RAISE amount
         = Inr (RTuple False
                 (''Raise must be at least '' @ show_int (big_blind g) @ '' more than current bet''),
                g)"
    and "game_current_bet g \<noteq> current_bet (players g ! player) \<Longrightarrow> big_blind g \<le> amount \<Longrightarrow>
       game_current_bet g - current_bet (players g ! player) + amount > chips (players g ! player) \<Longrightarrow>
       process_action g player RAISE amount = Inr (RTuple False ''Insufficient chips'', g)"
  using assms
  by (simp_all add: process_action_def reject_def do_check_def do_call_def do_bet_def do_raise_def
      Let_def FOLD_def CHECK_def CALL_def BET_def RAISE_def)

lemma start_hand_rejects:
  "length (hand_players g) < 2 \<Longrightarrow> start_hand g shuffled = Inr (RBool False, g)"
  by (simp add: start_hand_def)

text \<open>
  Claim C5, as the code has it. Whenever \<open>process_action\<close> returns a failure, the table is
  the one it was called on and the result carries a message that is not empty; whenever
  \<open>start_hand\<close> returns a failure, the table is unchanged and the result is the bare
  \<open>False\<close>.
\<close>

theorem rejection_leaves_table_unchanged:
  "(process_action g player action amount = Inr (r, g') \<and> \<not> succeeded r
      \<longrightarrow> g' = g \<and> (\<exists>m. r = RTuple False m \<and> m \<noteq> []))
   \<and> (start_hand g shuffled = Inr (r0, g0) \<and> \<not> succeeded r0
      \<longrightarrow> g0 = g \<and> r0 = RBool False)"
  using process_action_rejection[of g player action amount r g']
    start_hand_rejection[of g shuffled r0 g0]
  by blast

theorem rejection_leaves_table_unchanged_witness:
  "process_action lone_table 0 CHECK 0 = Inr (RTuple False ''Game is not in progress'', lone_table)
   \<and> \<not> succeeded (RTuple False ''Game is not in progress'')
   \<and> start_hand lone_table reset_deck = Inr (RBool False, lone_table)
   \<and> \<not> succeeded (RBool False)"
proof -
  have a: "process_action lone_table 0 CHECK 0
             = Inr (RTuple False ''Game is not in progress'', lone_table)"
    by (simp add: process_action_def reject_def lone_table_def new_game_def)
  have b: "start_hand lone_table reset_deck = Inr (RBool False, lone_table)"
    by (simp add: start_hand_def hand_players_def lone_table_def new_game_def new_player_def)
  show ?thesis
    using rejection_leaves_table_unchanged[of lone_table 0 CHECK 0
        "RTuple False ''Game is not in progress''" lone_table reset_deck "RBool False" lone_table]
      a b
    by simp
qed

text \<open>Claim C5 as stated fails for \<open>start_hand\<close>: its failure result is the boolean alone,
  with no message.\<close>

theorem start_hand_failure_has_no_message:
  "start_hand lone_table reset_deck = Inr (RBool False, lone_table)
   \<and> \<not> succeeded (RBool False) \<and> message_of (RBool False) = None"
  by (simp add: start_hand_def hand_players_def lone_table_def new_game_def new_player_def)

section \<open>Where the chips go\<close>

text \<open>
  What holds of claim C2: \<open>start_hand\<close> moves the blinds from the stacks into the pot, and
  every call of \<open>process_action\<close> that leaves the list of side pots empty keeps the stacks
  and the pot in flight together (at the end of the hand the pot is in the winner's stack).
  Only the distribution of side pots at the showdown loses chips.
\<close>

lemma bet_conserves: "bet p n = (a, p') \<Longrightarrow> chips p' + a = chips p"
  by (auto simp: bet_def remove_chips_def Let_def split: if_splits)

lemma sum_chips_update:
  "i < length ps \<Longrightarrow> sum_list (map chips (ps[i := q])) = sum_list (map chips ps) - chips (ps ! i) + chips q"
proof (induction ps arbitrary: i)
  case Nil
  then show ?case by simp
next
  case (Cons p ps)
  then show ?case by (cases i) simp_all
qed

lemma player_bet_conserves:
  assumes "i < length (players g)" and "player_bet g i n = (a, g')"
  shows "total_chips g' + a = total_chips g" and "pot g' = pot g" and "state g' = state g"
    and "side_pots g' = side_pots g"
proof -
  obtain p' where b: "bet (players g ! i) n = (a, p')" and g': "g' = g\<lparr>players := (players g)[i := p']\<rparr>"
    using assms(2) by (auto simp: player_bet_def split: prod.splits)
  from bet_conserves[OF b] show "total_chips g' + a = total_chips g"
    using assms(1) by (simp add: g' total_chips_def sum_chips_update)
  show "pot g' = pot g" "state g' = state g" "side_pots g' = side_pots g" by (simp_all add: g')
qed

lemma player_add_chips_total:
  "i < length (players g) \<Longrightarrow> total_chips (player_add_chips g i n) = total_chips g + n"
  by (simp add: player_add_chips_def total_chips_def sum_chips_update add_chips_def)

lemma reset_round_chips: "chips \<circ> reset_for_new_round = chips"
  by (rule ext) (simp add: reset_for_new_round_def)

lemma reset_betting_round_keeps:
  assumes "reset_betting_round g = Inr g'"
  shows "total_chips g' = total_chips g \<and> pot g' = pot g \<and> state g' = state g
       \<and> side_pots g' = side_pots g"
  using assms
  by (auto simp: reset_betting_round_def Let_def total_chips_def reset_round_chips
      split: if_splits option.splits)

lemma deal_flop_keeps:
  assumes "deal_flop g = Inr g'"
  shows "total_chips g' = total_chips g \<and> pot g' = pot g \<and> state g' = state g
       \<and> side_pots g' = side_pots g"
  using assms
  by (auto simp: deal_flop_def Let_def total_chips_def split: sum.splits prod.splits
      dest!: reset_betting_round_keeps)

lemma deal_one_keeps:
  assumes "deal_one street g = Inr g'"
  shows "total_chips g' = total_chips g \<and> pot g' = pot g \<and> state g' = state g
       \<and> side_pots g' = side_pots g"
  using assms
  by (auto simp: deal_one_def Let_def total_chips_def split: sum.splits prod.splits
      dest!: reset_betting_round_keeps)


lemma index_of_in_range: "index_of xs x = Some k \<Longrightarrow> k < length xs"
  by (induction xs arbitrary: k) (auto split: if_splits)

lemma evaluate_all_indices:
  "evaluate_all players_cards community i = Inr evs \<Longrightarrow> k \<in> fst ` set evs
   \<Longrightarrow> k < i + length players_cards"
proof (induction players_cards arbitrary: i evs)
  case Nil
  then show ?case by simp
next
  case (Cons pc rest)
  then obtain rank tbs evs' where e: "evaluate_all rest community (Suc i) = Inr evs'"
    and evs: "evs = (i, rank, tbs) # evs'"
    by (auto split: sum.splits prod.splits)
  show ?case
  proof (cases "k = i")
    case True
    then show ?thesis by simp
  next
    case False
    with Cons.prems(2) have "k \<in> fst ` set evs'" unfolding evs by auto
    from Cons.IH[OF e this] show ?thesis by simp
  qed
qed

lemma set_insert_desc: "set (insert_desc x evs) = insert x (set evs)"
  by (induction evs) auto

lemma set_sort_desc: "set (sort_desc evs) = set evs"
  by (induction evs) (simp_all add: sort_desc_def set_insert_desc)

lemma set_group_ties: "set (group_ties evs) = fst ` set evs"
proof (induction evs rule: group_ties.induct)
  case 1
  then show ?case by simp
next
  case (2 ev evs)
  have "set evs = set (takeWhile (\<lambda>x. snd x = snd ev) evs) \<union> set (dropWhile (\<lambda>x. snd x = snd ev) evs)"
    by (metis set_append takeWhile_dropWhile_id)
  with 2 show ?case by (auto simp: image_Un)
qed

lemma ranked_players_in_range:
  assumes "compare_player_hands players_cards community = Inr ranked_players"
    and "i \<in> set ranked_players"
  shows "i < length players_cards"
proof -
  from assms(1) obtain evs where e: "evaluate_all players_cards community 0 = Inr evs"
    and r: "ranked_players = group_ties (sort_desc evs)"
    by (auto simp: compare_player_hands_def split: sum.splits)
  have "set ranked_players = fst ` set evs"
    by (simp add: r set_group_ties set_sort_desc)
  with assms(2) have "i \<in> fst ` set evs" by simp
  from evaluate_all_indices[OF e this] show ?thesis by simp
qed


lemma distribute_keeps_side_pots:
  "side_pots (foldl (distribute_side_pot active ranked) g sps) = side_pots g"
proof (induction sps arbitrary: g)
  case Nil
  then show ?case by simp
next
  case (Cons sp sps)
  have "side_pots (distribute_side_pot active ranked g sp) = side_pots g"
    by (simp add: distribute_side_pot_def Let_def player_add_chips_def split: prod.splits)
  with Cons.IH show ?case by simp
qed

lemma calculate_side_pots_keeps:
  "players (calculate_side_pots g) = players g" "pot (calculate_side_pots g) = pot g"
  "state (calculate_side_pots g) = state g"
  "community_cards (calculate_side_pots g) = community_cards g"
  by (simp_all add: calculate_side_pots_def Let_def)

lemma showdown_single_pot:
  assumes sd: "showdown g = Inr g'" and sp: "side_pots g' = []" and st: "state g \<noteq> FINISHED"
  shows "chips_in_play g' = chips_in_play g"
proof (cases "get_active_players g = []")
  case True
  then have "get_active_players (g\<lparr>betting_round := SHOWDOWN\<rparr>) = []"
    by (simp add: get_active_players_def)
  with sd have "g' = g\<lparr>betting_round := SHOWDOWN\<rparr>" by (simp add: showdown_def Let_def)
  then show ?thesis by (simp add: chips_in_play_def total_chips_def)
next
  case False
  define g1 where "g1 = g\<lparr>betting_round := SHOWDOWN\<rparr>"
  define active where "active = get_active_players g1"
  define g2 where "g2 = calculate_side_pots g1"
  have a: "active = get_active_players g" by (simp add: active_def g1_def get_active_players_def)
  with False have ne: "active \<noteq> []" by simp
  from sd ne obtain ranked where
    r: "compare_player_hands (map (\<lambda>i. hand (players g2 ! i)) active) (community_cards g2) = Inr ranked"
    and g': "g' = (if side_pots (g2\<lparr>winners := []\<rparr>) \<noteq> []
                   then foldl (distribute_side_pot active ranked) (g2\<lparr>winners := []\<rparr>)
                          (side_pots (g2\<lparr>winners := []\<rparr>))
                   else (player_add_chips (g2\<lparr>winners := []\<rparr>) (active ! hd ranked) (pot g2))
                          \<lparr>winners := [(active ! hd ranked, pot g2)]\<rparr>)\<lparr>state := FINISHED\<rparr>"
    unfolding showdown_def Let_def g1_def[symmetric] active_def[symmetric] g2_def[symmetric]
    by (auto simp: player_add_chips_def split: sum.splits)
  have e: "side_pots (g2\<lparr>winners := []\<rparr>) = []"
  proof (rule ccontr)
    assume n: "side_pots (g2\<lparr>winners := []\<rparr>) \<noteq> []"
    with g' have "side_pots g' = side_pots (g2\<lparr>winners := []\<rparr>)"
      by (simp add: distribute_keeps_side_pots)
    with sp n show False by simp
  qed
  have "length ranked = length active" using compare_player_hands_length[OF r] by simp
  with ne have "ranked \<noteq> []" by auto
  then have "hd ranked \<in> set ranked" by simp
  from ranked_players_in_range[OF r this] have "hd ranked < length active" by simp
  then have "active ! hd ranked \<in> set (get_active_players g)" unfolding a by simp
  then have w: "active ! hd ranked < length (players g)" by (rule active_in_range)
  have p: "players g2 = players g" "pot g2 = pot g"
    by (simp_all add: g2_def g1_def calculate_side_pots_keeps)
  have "total_chips g' = total_chips g + pot g"
    using w p unfolding g' e
    by (simp add: total_chips_def player_add_chips_def sum_chips_update add_chips_def)
  moreover have "state g' = FINISHED" unfolding g' by simp
  ultimately show ?thesis using st by (simp add: chips_in_play_def)
qed

lemma check_complete_conserves:
  assumes c: "check_betting_round_complete g = Inr g'" and sp: "side_pots g' = []"
    and st: "state g \<noteq> FINISHED"
  shows "chips_in_play g' = chips_in_play g"
proof (cases "length (get_active_players g) = 1")
  case True
  then have "hd (get_active_players g) \<in> set (get_active_players g)"
    by (cases "get_active_players g") auto
  then have w: "hd (get_active_players g) < length (players g)" by (rule active_in_range)
  from c True have g': "g' = (player_add_chips g (hd (get_active_players g)) (pot g))
      \<lparr>winners := [(hd (get_active_players g), pot g)], state := FINISHED\<rparr>"
    by (simp add: check_betting_round_complete_def Let_def player_add_chips_def)
  have "total_chips g' = total_chips g + pot g"
    using w unfolding g'
    by (simp add: total_chips_def player_add_chips_def sum_chips_update add_chips_def)
  then show ?thesis using st unfolding g' by (simp add: chips_in_play_def)
next
  case False
  show ?thesis
  proof (cases "betting_round g")
    case PRE_FLOP
    with c False have "deal_flop g = Inr g'" by (simp add: check_betting_round_complete_def)
    from deal_flop_keeps[OF this] show ?thesis by (simp add: chips_in_play_def)
  next
    case FLOP
    with c False have "deal_one TURN g = Inr g'"
      by (simp add: check_betting_round_complete_def deal_turn_def)
    from deal_one_keeps[OF this] show ?thesis by (simp add: chips_in_play_def)
  next
    case TURN
    with c False have "deal_one RIVER g = Inr g'"
      by (simp add: check_betting_round_complete_def deal_river_def)
    from deal_one_keeps[OF this] show ?thesis by (simp add: chips_in_play_def)
  next
    case RIVER
    with c False have "showdown g = Inr g'" by (simp add: check_betting_round_complete_def)
    from showdown_single_pot[OF this sp st] show ?thesis .
  next
    case SHOWDOWN
    with c False show ?thesis by (simp add: check_betting_round_complete_def)
  qed
qed

lemma advance_conserves:
  assumes a: "advance_to_next_player g = Inr g'" and sp: "side_pots g' = []"
    and st: "state g \<noteq> FINISHED"
  shows "chips_in_play g' = chips_in_play g"
proof -
  define g1 where "g1 = g\<lparr>current_player_index :=
      (current_player_index g + 1) mod length (get_eligible_players g)\<rparr>"
  have k: "chips_in_play g1 = chips_in_play g" "state g1 = state g"
    by (simp_all add: g1_def chips_in_play_def total_chips_def)
  from a have "check_betting_round_complete g = Inr g' \<or> check_betting_round_complete g1 = Inr g'
      \<or> g' = g1"
    unfolding advance_to_next_player_def Let_def g1_def[symmetric]
    by (auto split: if_splits option.splits)
  then show ?thesis
    using check_complete_conserves[OF _ sp st] check_complete_conserves[of g1 g', OF _ sp] k st
    by auto
qed

lemma accept_conserves:
  assumes "accept g msg = Inr (r, g')" and "side_pots g' = []" and "state g \<noteq> FINISHED"
  shows "chips_in_play g' = chips_in_play g"
proof -
  from assms(1) have "advance_to_next_player g = Inr g'"
    by (auto simp: accept_def split: sum.splits)
  from advance_conserves[OF this assms(2,3)] show ?thesis .
qed

lemma eligible_in_range: "i \<in> set (get_eligible_players g) \<Longrightarrow> i < length (players g)"
  by (simp add: get_eligible_players_def active_in_range)

lemma mark_acted_keeps:
  "chips_in_play (mark_acted g i) = chips_in_play g" "state (mark_acted g i) = state g"
  by (simp_all add: mark_acted_def chips_in_play_def total_chips_def)

lemma bet_into_pot:
  assumes "i < length (players g)" and "player_bet g i n = (a, g1)" and "state g \<noteq> FINISHED"
  shows "chips_in_play (g1\<lparr>pot := pot g1 + a\<rparr>) = chips_in_play g"
    and "state (g1\<lparr>pot := pot g1 + a\<rparr>) = state g"
  using player_bet_conserves[OF assms(1,2)] assms(3)
  by (simp_all add: chips_in_play_def total_chips_def)

lemma do_fold_conserves:
  assumes "do_fold g player = Inr (r, g')" and "side_pots g' = []" and "state g \<noteq> FINISHED"
    and i: "player < length (players g)"
  shows "chips_in_play g' = chips_in_play g"
proof -
  define g2 where "g2 = mark_acted (g\<lparr>players := (players g)[player := fold_player (players g ! player)]\<rparr>) player"
  have k: "chips_in_play g2 = chips_in_play g" "state g2 = state g"
    using i
    by (simp_all add: g2_def mark_acted_def chips_in_play_def total_chips_def sum_chips_update
        fold_player_def)
  from assms(1) have "accept g2 (\<lambda>g'. name (players g' ! player) @ '' folds'') = Inr (r, g')"
    by (simp add: do_fold_def Let_def g2_def)
  from accept_conserves[OF this assms(2)] k assms(3) show ?thesis by simp
qed

lemma do_check_conserves:
  assumes "do_check g player = Inr (r, g')" and "side_pots g' = []" and "state g \<noteq> FINISHED"
  shows "chips_in_play g' = chips_in_play g"
proof (cases "succeeded r")
  case False
  with assms(1) have "g' = g"
    by (auto simp: do_check_def Let_def reject_def accept_def split: if_splits sum.splits)
  then show ?thesis by simp
next
  case True
  with assms(1) have "accept (mark_acted g player) (\<lambda>g'. name (players g' ! player) @ '' checks'') = Inr (r, g')"
    by (auto simp: do_check_def Let_def reject_def split: if_splits)
  from accept_conserves[OF this assms(2)] mark_acted_keeps[of g player] assms(3)
  show ?thesis by simp
qed

lemma do_call_conserves:
  assumes d: "do_call g player = Inr (r, g')" and sp: "side_pots g' = []"
    and st: "state g \<noteq> FINISHED" and i: "player < length (players g)"
  shows "chips_in_play g' = chips_in_play g"
proof (cases "succeeded r")
  case False
  with d have "g' = g"
    by (auto simp: do_call_def Let_def reject_def accept_def split: if_splits sum.splits prod.splits)
  then show ?thesis by simp
next
  case True
  obtain a g1 where b: "player_bet g player
      (min (game_current_bet g - current_bet (players g ! player)) (chips (players g ! player))) = (a, g1)"
    by (cases "player_bet g player
      (min (game_current_bet g - current_bet (players g ! player)) (chips (players g ! player)))") auto
  from d True obtain msg where
    "accept (mark_acted (g1\<lparr>pot := pot g1 + a\<rparr>) player) msg = Inr (r, g')"
    by (auto simp: do_call_def Let_def reject_def b split: if_splits)
  from accept_conserves[OF this sp] bet_into_pot[OF i b st] mark_acted_keeps st
  show ?thesis by simp
qed

lemma do_bet_conserves:
  assumes d: "do_bet g player amount = Inr (r, g')" and sp: "side_pots g' = []"
    and st: "state g \<noteq> FINISHED" and i: "player < length (players g)"
  shows "chips_in_play g' = chips_in_play g"
proof (cases "succeeded r")
  case False
  with d have "g' = g"
    by (auto simp: do_bet_def Let_def reject_def accept_def split: if_splits sum.splits prod.splits)
  then show ?thesis by simp
next
  case True
  obtain a g1 where b: "player_bet g player amount = (a, g1)"
    by (cases "player_bet g player amount") auto
  define g4 where "g4 = mark_acted (g1\<lparr>game_current_bet := current_bet (players g1 ! player),
      pot := pot g1 + a, acted_this_round := {}\<rparr>) player"
  have k: "chips_in_play g4 = chips_in_play g" "state g4 = state g"
    using player_bet_conserves[OF i b] st
    by (simp_all add: g4_def mark_acted_def chips_in_play_def total_chips_def)
  from d True obtain msg where "accept g4 msg = Inr (r, g')"
    by (auto simp: do_bet_def Let_def reject_def b g4_def split: if_splits)
  from accept_conserves[OF this sp] k st show ?thesis by simp
qed

lemma do_raise_conserves:
  assumes d: "do_raise g player amount = Inr (r, g')" and sp: "side_pots g' = []"
    and st: "state g \<noteq> FINISHED" and i: "player < length (players g)"
  shows "chips_in_play g' = chips_in_play g"
proof (cases "succeeded r")
  case False
  with d have "g' = g"
    by (auto simp: do_raise_def Let_def reject_def accept_def split: if_splits sum.splits prod.splits)
  then show ?thesis by simp
next
  case True
  obtain a g1 where b: "player_bet g player
      (game_current_bet g - current_bet (players g ! player) + amount) = (a, g1)"
    by (cases "player_bet g player
      (game_current_bet g - current_bet (players g ! player) + amount)") auto
  define g4 where "g4 = mark_acted (g1\<lparr>game_current_bet := current_bet (players g1 ! player),
      pot := pot g1 + a, acted_this_round := {}\<rparr>) player"
  have k: "chips_in_play g4 = chips_in_play g" "state g4 = state g"
    using player_bet_conserves[OF i b] st
    by (simp_all add: g4_def mark_acted_def chips_in_play_def total_chips_def)
  from d True obtain msg where "accept g4 msg = Inr (r, g')"
    by (auto simp: do_raise_def Let_def reject_def b g4_def split: if_splits)
  from accept_conserves[OF this sp] k st show ?thesis by simp
qed

lemma do_all_in_conserves:
  assumes d: "do_all_in g player = Inr (r, g')" and sp: "side_pots g' = []"
    and st: "state g \<noteq> FINISHED" and i: "player < length (players g)"
  shows "chips_in_play g' = chips_in_play g"
proof -
  obtain a g1 where b: "player_bet g player (chips (players g ! player)) = (a, g1)"
    by (cases "player_bet g player (chips (players g ! player))") auto
  define g2 where "g2 = (if a > game_current_bet g1
      then g1\<lparr>game_current_bet := current_bet (players g1 ! player), acted_this_round := {}\<rparr>
      else g1)"
  define g4 where "g4 = mark_acted (g2\<lparr>pot := pot g2 + a\<rparr>) player"
  have k: "chips_in_play g4 = chips_in_play g" "state g4 = state g"
    using player_bet_conserves[OF i b] st
    by (simp_all add: g4_def g2_def mark_acted_def chips_in_play_def total_chips_def)
  from d obtain msg where "accept g4 msg = Inr (r, g')"
    by (auto simp: do_all_in_def Let_def b g4_def g2_def)
  from accept_conserves[OF this sp] k st show ?thesis by simp
qed

lemma process_action_conserves:
  assumes p: "process_action g player action amount = Inr (r, g')"
    and st: "state g = IN_PROGRESS" and sp: "side_pots g' = []"
  shows "chips_in_play g' = chips_in_play g"
proof (cases "succeeded r")
  case False
  with p have "g' = g" using process_action_rejection by blast
  then show ?thesis by simp
next
  case True
  have n: "state g \<noteq> FINISHED" using st by simp
  from p True have e: "player \<in> set (get_eligible_players g)"
    by (auto simp: process_action_def reject_def split: if_splits)
  then have i: "player < length (players g)" by (rule eligible_in_range)
  from p True have "do_fold g player = Inr (r, g') \<or> do_check g player = Inr (r, g')
      \<or> do_call g player = Inr (r, g') \<or> do_bet g player amount = Inr (r, g')
      \<or> do_raise g player amount = Inr (r, g') \<or> do_all_in g player = Inr (r, g')"
    by (auto simp: process_action_def reject_def split: if_splits)
  then show ?thesis
    using do_fold_conserves[OF _ sp n i] do_check_conserves[OF _ sp n] do_call_conserves[OF _ sp n i]
      do_bet_conserves[OF _ sp n i] do_raise_conserves[OF _ sp n i] do_all_in_conserves[OF _ sp n i]
    by blast
qed


lemma deal_hole_cards_keeps:
  "deal_hole_cards seats g = Inr g' \<Longrightarrow>
   map chips (players g') = map chips (players g) \<and> pot g' = pot g \<and> state g' = state g"
proof (induction seats arbitrary: g)
  case Nil
  then show ?case by simp
next
  case (Cons i seats)
  from Cons.prems obtain cs d where
    r: "deal_hole_cards seats
          (g\<lparr>deck := d, players := (players g)[i := (players g ! i)\<lparr>hand := cs\<rparr>]\<rparr>) = Inr g'"
    by (auto split: sum.splits prod.splits)
  have "map chips ((players g)[i := (players g ! i)\<lparr>hand := cs\<rparr>]) = map chips (players g)"
  proof (cases "i < length (players g)")
    case True
    then show ?thesis by (intro nth_equalityI) (simp_all add: nth_list_update)
  next
    case False
    then have "length (players g) \<le> i" by simp
    then have "(players g)[i := (players g ! i)\<lparr>hand := cs\<rparr>] = players g"
      by (rule list_update_beyond)
    then show ?thesis by (simp only:)
  qed
  with Cons.IH[OF r] show ?case by simp
qed

lemma hand_players_in_range: "i \<in> set (hand_players g) \<Longrightarrow> i < length (players g)"
  by (simp add: hand_players_def)

lemma post_blinds_conserves:
  assumes "active_players ! small_blind_position g < length (players g)"
    and "active_players ! big_blind_position g < length (players g)"
  shows "total_chips (post_blinds g active_players) + pot (post_blinds g active_players)
           = total_chips g + pot g"
proof -
  let ?sb = "active_players ! small_blind_position g"
  let ?bb = "active_players ! big_blind_position g"
  obtain a1 g1 where b1: "player_bet g ?sb (min (small_blind g) (chips (players g ! ?sb))) = (a1, g1)"
    by (cases "player_bet g ?sb (min (small_blind g) (chips (players g ! ?sb)))") auto
  obtain a2 g3 where b2: "player_bet (g1\<lparr>pot := pot g1 + a1\<rparr>) ?bb
      (min (big_blind g) (chips (players g ! ?bb))) = (a2, g3)"
    by (cases "player_bet (g1\<lparr>pot := pot g1 + a1\<rparr>) ?bb
      (min (big_blind g) (chips (players g ! ?bb)))") auto
  have l: "length (players g1) = length (players g)"
    using b1 by (auto simp: player_bet_def split: prod.splits)
  have c1: "total_chips g1 + a1 = total_chips g" "pot g1 = pot g"
    using player_bet_conserves[OF assms(1) b1] by simp_all
  have "?bb < length (players (g1\<lparr>pot := pot g1 + a1\<rparr>))" using assms(2) l by simp
  from player_bet_conserves[OF this b2]
  have c2: "total_chips g3 + a2 = total_chips g1" "pot g3 = pot g1 + a1"
    by (simp_all add: total_chips_def)
  have "post_blinds g active_players = g3\<lparr>pot := pot g3 + a2,
      game_current_bet := max (current_bet (players g3 ! ?sb)) (current_bet (players g3 ! ?bb))\<rparr>"
    by (simp add: post_blinds_def Let_def b1 b2)
  then show ?thesis using c1 c2 by (simp add: total_chips_def)
qed

lemma start_hand_conserves:
  assumes s: "start_hand g shuffled = Inr (r, g')"
  shows "if succeeded r then total_chips g' + pot g' = total_chips g \<and> state g' = IN_PROGRESS
         else g' = g"
proof (cases "length (hand_players g) < 2")
  case True
  with s show ?thesis by (auto simp: start_hand_def)
next
  case False
  define n where "n = length (hand_players g)"
  have n: "0 < n" using False unfolding n_def by linarith
  define g1 where "g1 = update_positions (reset_hand_state g shuffled) n"
  have p1: "players g1 = map reset_for_new_hand (players g)" "pot g1 = 0"
    "small_blind_position g1 < n" "big_blind_position g1 < n"
    using n by (simp_all add: g1_def update_positions_def reset_hand_state_def Let_def)
  have t1: "total_chips g1 = total_chips g"
    by (simp add: p1 total_chips_def o_def reset_for_new_hand_def)
  have "hand_players g ! small_blind_position g1 \<in> set (hand_players g)"
    "hand_players g ! big_blind_position g1 \<in> set (hand_players g)"
    using p1(3,4) by (simp_all add: n_def)
  then have r1: "hand_players g ! small_blind_position g1 < length (players g1)"
    "hand_players g ! big_blind_position g1 < length (players g1)"
    by (simp_all add: p1 hand_players_in_range)
  define g2 where "g2 = post_blinds g1 (hand_players g)"
  have t2: "total_chips g2 + pot g2 = total_chips g"
    using post_blinds_conserves[OF r1] t1 p1(2) by (simp add: g2_def)
  from s False obtain g3 where d: "deal_hole_cards (hand_players g) g2 = Inr g3"
    and g': "g' = g3\<lparr>acted_this_round :=
                       {player_id (players g3 ! (hand_players g ! small_blind_position g3)),
                        player_id (players g3 ! (hand_players g ! big_blind_position g3))},
                     current_player_index := (big_blind_position g3 + 1) mod n,
                     state := IN_PROGRESS\<rparr>"
    and r: "r = RBool True"
    unfolding start_hand_def begin_hand_def Let_def n_def[symmetric] g1_def[symmetric]
      g2_def[symmetric]
    by (auto split: sum.splits)
  from deal_hole_cards_keeps[OF d] t2 show ?thesis
    unfolding g' r by (simp add: total_chips_def)
qed

end
